theory Spec2Isabelle
  imports Main "HOL-Library.Char_ord" "HOL-Library.List_Lexorder" "HOL-Library.Multiset"
begin

section \<open>Descriptive SVG renamer: a model of tools/rename\_shapes\_descriptive.py\<close>

text \<open>
  A text is a list of code points below 256 (ASCII and Latin-1), one \<open>char\<close> each; on
  these, \<open>lower_char\<close> and \<open>is_space\<close> are \<open>str.lower\<close> and \<open>str.isspace\<close>. Text with
  other code points is outside the model. The bytes of a file are a \<open>char list\<close> too; the
  codec that turns them into text is a parameter (see \<open>environment\<close>).
\<close>

subsection \<open>Python string primitives\<close>

text \<open>
  The lower case of a code point below 256: \<open>A\<close> to \<open>Z\<close>, and the capital letters of
  Latin-1 (\<open>0xC0\<close> to \<open>0xDE\<close> without the multiplication sign \<open>0xD7\<close>), move up by 32.
\<close>

definition lower_char :: "char \<Rightarrow> char" where
  "lower_char c =
     (let n = (of_char c :: nat)
      in if (65 \<le> n \<and> n \<le> 90) \<or> (192 \<le> n \<and> n \<le> 222 \<and> n \<noteq> 215) then char_of (n + 32)
         else c)"

text \<open>\<open>s.lower()\<close>\<close>

definition py_lower :: "string \<Rightarrow> string" where
  "py_lower s = map lower_char s"

text \<open>\<open>s.startswith(sub)\<close>, used to spell out \<open>sub in s\<close>.\<close>

fun starts_with :: "string \<Rightarrow> string \<Rightarrow> bool" where
  "starts_with [] s = True"
| "starts_with (p # ps) [] = False"
| "starts_with (p # ps) (c # cs) = (p = c \<and> starts_with ps cs)"

text \<open>\<open>sub in s\<close>: \<open>sub\<close> occurs in \<open>s\<close> as a contiguous substring.\<close>

fun contains :: "string \<Rightarrow> string \<Rightarrow> bool" where
  "contains sub [] = (sub = [])"
| "contains sub (c # cs) = (starts_with sub (c # cs) \<or> contains sub cs)"

text \<open>\<open>'-'.join(parts)\<close>\<close>

fun join_hyphen :: "string list \<Rightarrow> string" where
  "join_hyphen [] = []"
| "join_hyphen [p] = p"
| "join_hyphen (p # q # ps) = p @ CHR ''-'' # join_hyphen (q # ps)"

text \<open>The character class \<open>[a-z0-9]\<close>.\<close>

definition alnum_lc :: "char \<Rightarrow> bool" where
  "alnum_lc c =
     (let n = (of_char c :: nat) in (97 \<le> n \<and> n \<le> 122) \<or> (48 \<le> n \<and> n \<le> 57))"

text \<open>\<open>re.sub(r'[^a-z0-9-]', '-', s)\<close>\<close>

definition sub_disallowed :: "string \<Rightarrow> string" where
  "sub_disallowed s = map (\<lambda>c. if alnum_lc c \<or> c = CHR ''-'' then c else CHR ''-'') s"

text \<open>\<open>re.sub(r'-+', '-', s)\<close>: every maximal run of hyphens becomes one hyphen.\<close>

fun collapse_hyphens :: "string \<Rightarrow> string" where
  "collapse_hyphens (a # b # cs) =
     (if a = CHR ''-'' \<and> b = CHR ''-'' then collapse_hyphens (b # cs)
      else a # collapse_hyphens (b # cs))"
| "collapse_hyphens cs = cs"

text \<open>\<open>s.strip('-')\<close>\<close>

definition strip_hyphens :: "string \<Rightarrow> string" where
  "strip_hyphens s =
     rev (dropWhile (\<lambda>c. c = CHR ''-'') (rev (dropWhile (\<lambda>c. c = CHR ''-'') s)))"

text \<open>\<open>s.rstrip('s')\<close>: every trailing \<open>s\<close> goes, not only one.\<close>

definition rstrip_s :: "string \<Rightarrow> string" where
  "rstrip_s s = rev (dropWhile (\<lambda>c. c = CHR ''s'') (rev s))"

subsection \<open>Errors\<close>

datatype error =
  AttributeError | FileNotFoundError | IsADirectoryError | NotADirectoryError | OSError
| UnicodeDecodeError | UnicodeEncodeError | LookupError | ValueError

definition bind_err :: "error + 'a \<Rightarrow> ('a \<Rightarrow> error + 'b) \<Rightarrow> error + 'b" where
  "bind_err m f = (case m of Inl e \<Rightarrow> Inl e | Inr x \<Rightarrow> f x)"

subsection \<open>The parsed document and the analyzer object\<close>

text \<open>
  An element of the tree that \<open>ET.parse\<close> returns: its tag (with the namespace in braces,
  as ElementTree writes it), its attributes and its children.
\<close>

datatype element = Element (tag: string) (attrib: "(string \<times> string) list") (children: "element list")

text \<open>\<open>root.iter()\<close>: the element itself, then its descendants in document order.\<close>

fun iter :: "element \<Rightarrow> element list" where
  "iter (Element t a cs) = Element t a cs # concat (map iter cs)"

text \<open>
  The fields of \<open>SVGAnalyzer\<close> that are read after construction. \<open>root\<close> is \<open>None\<close>
  when \<open>ET.parse\<close> raised \<open>ParseError\<close>; \<open>comment\<close> is \<open>None\<close> when the file has no
  comment.
\<close>

record SVGAnalyzer =
  filepath :: string
  category :: string
  root :: "element option"
  comment :: "string option"

text \<open>\<open>tag.split('}')[-1]\<close>: what follows the last closing brace.\<close>

definition strip_namespace :: "string \<Rightarrow> string" where
  "strip_namespace t = rev (takeWhile (\<lambda>c. c \<noteq> CHR ''}'') (rev t))"

text \<open>
  \<open>count_elements\<close>: a \<open>defaultdict(int)\<close> is a total function with default 0, and
  \<open>counts.get(k, 0)\<close> is its application.
\<close>

definition count_elements :: "SVGAnalyzer \<Rightarrow> string \<Rightarrow> nat" where
  "count_elements self =
     (case root self of
        None \<Rightarrow> (\<lambda>_. 0)
      | Some r \<Rightarrow>
          fold (\<lambda>elem counts. let t = strip_namespace (tag elem) in counts(t := counts t + 1))
            (iter r) (\<lambda>_. 0))"

text \<open>\<open>len([e for e in self.root.iter() if e.get('fill') == 'none'])\<close>\<close>

definition fill_none_count :: "element \<Rightarrow> nat" where
  "fill_none_count r = length (filter (\<lambda>e. map_of (attrib e) ''fill'' = Some ''none'') (iter r))"

text \<open>The truth value of \<open>self.comment\<close>: neither \<open>None\<close> nor the empty string.\<close>

definition truthy :: "string option \<Rightarrow> bool" where
  "truthy c = (case c of None \<Rightarrow> False | Some s \<Rightarrow> s \<noteq> [])"

text \<open>\<open>self.comment.lower()\<close> raises \<open>AttributeError\<close> on \<open>None\<close>.\<close>

definition comment_lower :: "SVGAnalyzer \<Rightarrow> error + string" where
  "comment_lower self =
     (case comment self of None \<Rightarrow> Inl AttributeError | Some c \<Rightarrow> Inr (py_lower c))"

text \<open>
  The conditional expression \<open>kw in self.comment.lower() if self.comment else False\<close>:
  the lookup is evaluated only when the comment is truthy.
\<close>

definition keyword_in_comment :: "string \<Rightarrow> SVGAnalyzer \<Rightarrow> error + bool" where
  "keyword_in_comment kw self =
     (if truthy (comment self)
      then bind_err (comment_lower self) (\<lambda>cl. Inr (contains kw cl))
      else Inr False)"

subsection \<open>analyze\_shape\_characteristics\<close>

definition descriptors :: "string list" where
  "descriptors =
     [''bold'', ''simple'', ''classic'', ''minimal'', ''organic'', ''geometric'',
      ''rounded'', ''angular'', ''layered'', ''stacked'', ''centered'',
      ''outline'', ''filled'', ''thick'', ''thin'', ''wavy'', ''straight'',
      ''curved'', ''pointed'', ''soft'', ''sharp'', ''horizontal'', ''vertical'',
      ''diagonal'', ''scattered'', ''tight'', ''wide'', ''tall'', ''chunky'']"

text \<open>Lines 64 to 87: the tokens read off the comment.\<close>

definition comment_tokens :: "SVGAnalyzer \<Rightarrow> string list \<Rightarrow> string list" where
  "comment_tokens self tokens =
     (case comment self of
        None \<Rightarrow> tokens
      | Some c \<Rightarrow>
          if c = [] then tokens
          else
            (let comment_lower = py_lower c;
                 tokens =
                   (if contains ''double'' comment_lower \<or> contains ''dual'' comment_lower
                      then tokens @ [''double'']
                    else if contains ''triple'' comment_lower \<or> contains ''three'' comment_lower
                      then tokens @ [''triple'']
                    else if contains ''four'' comment_lower \<or> contains ''quad'' comment_lower
                      then tokens @ [''quad'']
                    else if contains ''cluster'' comment_lower \<or> contains ''multi'' comment_lower
                      then tokens @ [''cluster'']
                    else tokens)
             in tokens @ filter (\<lambda>descriptor. contains descriptor comment_lower) descriptors))"

text \<open>Lines 98 to 107: multiplicity from the circle count, for three categories.\<close>

definition count_multiplicity :: "string \<Rightarrow> nat \<Rightarrow> nat \<Rightarrow> string list \<Rightarrow> string list" where
  "count_multiplicity cat circle_count polygon_count tokens =
     (if cat \<in> set [''hearts'', ''stars'', ''sparkles''] then
        (if circle_count > 3 \<and> polygon_count > 0 then
           (if ''cluster'' \<notin> set tokens then tokens @ [''cluster''] else tokens)
         else if circle_count \<ge> 3 then
           (if ''triple'' \<notin> set tokens \<and> ''cluster'' \<notin> set tokens
            then tokens @ [''triple''] else tokens)
         else if circle_count = 2 then
           (if ''double'' \<notin> set tokens then tokens @ [''double''] else tokens)
         else tokens)
      else tokens)"

text \<open>
  Lines 110 to 115. \<open>fill_none_count > total_shapes / 2\<close> compares an integer with a
  float quotient; on natural numbers that is \<open>2 * fill_none_count > total_shapes\<close>.
\<close>

definition outline_rule :: "element option \<Rightarrow> nat \<Rightarrow> string list \<Rightarrow> string list" where
  "outline_rule rt total_shapes tokens =
     (case rt of
        None \<Rightarrow> tokens
      | Some r \<Rightarrow>
          if 2 * fill_none_count r > total_shapes \<and> total_shapes > 0 then
            (if ''outline'' \<notin> set tokens then tokens @ [''outline''] else tokens)
          else tokens)"

text \<open>Lines 118 to 217: one branch per category.\<close>

definition category_rule ::
  "SVGAnalyzer \<Rightarrow> nat \<Rightarrow> nat \<Rightarrow> nat \<Rightarrow> nat \<Rightarrow> nat \<Rightarrow> nat \<Rightarrow> string list \<Rightarrow> error + string list" where
  "category_rule self polygon_count circle_count path_count rect_count ellipse_count line_count tokens =
     (if category self = ''mountains'' then
        (if polygon_count \<ge> 4 then Inr (tokens @ [''range''])
         else if polygon_count \<ge> 3 then
           Inr (if ''layered'' \<notin> set tokens then tokens @ [''layered''] else tokens)
         else if polygon_count = 2 then
           Inr (if ''double'' \<notin> set tokens then tokens @ [''dual''] else tokens)
         else if polygon_count = 1 then Inr (tokens @ [''single''])
         else Inr tokens)
      else if category self = ''waves'' then
        (let tokens =
               (if path_count \<ge> 3 then tokens @ [''triple'']
                else if path_count = 2 then tokens @ [''double'']
                else tokens)
         in Inr (if ''outline'' \<in> set tokens then tokens @ [''line''] else tokens))
      else if category self = ''compasses'' then
        (let tokens = (if circle_count \<ge> 2 then tokens @ [''ringed''] else tokens)
         in Inr (if polygon_count \<ge> 8 then tokens @ [''eight-point'']
                 else if polygon_count \<ge> 4 then tokens @ [''four-point'']
                 else tokens))
      else if category self = ''dividers'' then
        (let tokens =
               (if circle_count \<ge> 3 then tokens @ [''dotted'']
                else if circle_count \<ge> 1 then tokens @ [''centered'']
                else tokens)
         in Inr (if polygon_count > 0 then tokens @ [''decorated''] else tokens))
      else if category self = ''badges'' \<or> category self = ''shields'' then
        (if circle_count > 10 then Inr (tokens @ [''scalloped''])
         else if polygon_count \<ge> 1 then
           bind_err (keyword_in_comment ''hex'' self) (\<lambda>hit.
             if hit then Inr (tokens @ [''hexagon''])
             else bind_err (keyword_in_comment ''octagon'' self) (\<lambda>hit.
               if hit then Inr (tokens @ [''octagon''])
               else bind_err (keyword_in_comment ''diamond'' self) (\<lambda>hit.
                 if hit then Inr (tokens @ [''diamond''])
                 else bind_err (keyword_in_comment ''star'' self) (\<lambda>hit.
                   if hit then Inr (tokens @ [''star'']) else Inr tokens))))
         else Inr tokens)
      else if category self = ''frames'' then
        (let tokens =
               (if rect_count \<ge> 2 \<or> circle_count \<ge> 2 then tokens @ [''double''] else tokens);
             tokens =
               (if polygon_count \<ge> 6 then tokens @ [''hexagon'']
                else if polygon_count \<ge> 8 then tokens @ [''octagon'']
                else tokens)
         in bind_err (keyword_in_comment ''corner'' self) (\<lambda>hit.
              if hit then Inr (tokens @ [''corner'']) else Inr tokens))
      else if category self = ''blobs'' then
        (let tokens =
               (if ellipse_count \<ge> 1 \<or> circle_count \<ge> 1 then
                  (if rect_count \<ge> 1 then tokens @ [''rounded''] else tokens @ [''oval''])
                else tokens)
         in bind_err (keyword_in_comment ''asymmetric'' self) (\<lambda>hit.
              if hit then Inr (tokens @ [''asymmetric'']) else Inr tokens))
      else if category self = ''lightning'' then
        (let tokens = (if polygon_count \<ge> 2 then tokens @ [''double''] else tokens)
         in bind_err (keyword_in_comment ''zigzag'' self) (\<lambda>hit.
              if hit then Inr (tokens @ [''zigzag''])
              else bind_err (keyword_in_comment ''compact'' self) (\<lambda>hit.
                if hit then Inr (tokens @ [''compact'']) else Inr tokens)))
      else if category self = ''speech_bubbles'' then
        (let tokens =
               (if circle_count \<ge> 3 then tokens @ [''thought'']
                else if ellipse_count \<ge> 3 then tokens @ [''cloud'']
                else tokens)
         in bind_err (keyword_in_comment ''tail'' self) (\<lambda>hit.
              if hit then Inr (tokens @ [''tail'']) else Inr tokens))
      else if category self = ''accents'' then
        (let tokens = (if line_count \<ge> 2 then tokens @ [''double''] else tokens);
             tokens =
               (if circle_count \<ge> 4 then tokens @ [''dotted'']
                else if circle_count = 1 then tokens @ [''circle'']
                else tokens)
         in Inr (if rect_count \<ge> 2 then tokens @ [''square''] else tokens))
      else if category self = ''sticker_outlines'' then
        (if polygon_count \<ge> 1 then
           bind_err (keyword_in_comment ''hex'' self) (\<lambda>hit.
             if hit then Inr (tokens @ [''hexagon''])
             else bind_err (keyword_in_comment ''star'' self) (\<lambda>hit.
               if hit then Inr (tokens @ [''star'']) else Inr tokens))
         else Inr tokens)
      else Inr tokens)"

definition analyze_shape_characteristics :: "SVGAnalyzer \<Rightarrow> error + string list" where
  "analyze_shape_characteristics self =
     (let tokens = [];
          counts = count_elements self;
          tokens = comment_tokens self tokens;
          polygon_count = counts ''polygon'';
          circle_count = counts ''circle'';
          path_count = counts ''path'';
          rect_count = counts ''rect'';
          ellipse_count = counts ''ellipse'';
          line_count = counts ''line'';
          tokens = count_multiplicity (category self) circle_count polygon_count tokens;
          tokens =
            outline_rule (root self)
              (polygon_count + circle_count + path_count + rect_count + ellipse_count) tokens
      in category_rule self polygon_count circle_count path_count rect_count ellipse_count
           line_count tokens)"

subsection \<open>generate\_descriptive\_name\<close>

definition category_singular :: "string \<rightharpoonup> string" where
  "category_singular =
     map_of
       [(''hearts'', ''heart''), (''stars'', ''star''), (''sparkles'', ''sparkle''),
        (''blobs'', ''blob''), (''mountains'', ''mountain''), (''waves'', ''wave''),
        (''compasses'', ''compass''), (''badges'', ''badge''), (''shields'', ''shield''),
        (''frames'', ''frame''), (''dividers'', ''divider''), (''lightning'', ''lightning''),
        (''speech_bubbles'', ''bubble''), (''accents'', ''accent''),
        (''sticker_outlines'', ''sticker''), (''sun_moon'', ''celestial'')]"

text \<open>\<open>category_singular.get(self.category, self.category.rstrip('s'))\<close>\<close>

definition base_word :: "string \<Rightarrow> string" where
  "base_word cat = (case category_singular cat of Some b \<Rightarrow> b | None \<Rightarrow> rstrip_s cat)"

text \<open>Lines 250 to 255: the loop that keeps the first occurrence of every token.\<close>

fun unique_loop :: "string list \<Rightarrow> string set \<Rightarrow> string list \<Rightarrow> string list" where
  "unique_loop [] seen unique_tokens = unique_tokens"
| "unique_loop (token # rest) seen unique_tokens =
     (if token \<notin> seen then unique_loop rest (insert token seen) (unique_tokens @ [token])
      else unique_loop rest seen unique_tokens)"

definition name_parts :: "string list \<Rightarrow> string \<Rightarrow> string list" where
  "name_parts tokens base =
     (if tokens \<noteq> [] then
        (let unique_tokens = unique_loop tokens {} [];
             unique_tokens = (if length unique_tokens > 3 then take 3 unique_tokens else unique_tokens)
         in unique_tokens @ [base])
      else [base])"

text \<open>Lines 266 to 270: the value of \<open>descriptive_name\<close> before the extension is added.\<close>

definition sanitize :: "string \<Rightarrow> string" where
  "sanitize s = strip_hyphens (collapse_hyphens (sub_disallowed (py_lower s)))"

definition descriptive_stem :: "string list \<Rightarrow> string \<Rightarrow> string" where
  "descriptive_stem tokens cat = sanitize (join_hyphen (name_parts tokens (base_word cat)))"

definition generate_descriptive_name :: "SVGAnalyzer \<Rightarrow> error + string" where
  "generate_descriptive_name self =
     bind_err (analyze_shape_characteristics self)
       (\<lambda>tokens. Inr (descriptive_stem tokens (category self) @ ''.svg''))"

subsection \<open>The name pattern\<close>

text \<open>
  The automaton of \<^verbatim>\<open>[a-z0-9]+(-[a-z0-9]+)*\<close>: the flag says that the last character read was
  a letter or a digit, which is where a hyphen may follow and where the string may end.
\<close>

fun pattern_from :: "bool \<Rightarrow> string \<Rightarrow> bool" where
  "pattern_from inword [] = inword"
| "pattern_from inword (c # cs) =
     (if alnum_lc c then pattern_from True cs
      else if c = CHR ''-'' \<and> inword then pattern_from False cs
      else False)"

definition kebab :: "string \<Rightarrow> bool" where
  "kebab s = pattern_from False s"

text \<open>A full match of \<^verbatim>\<open>^[a-z0-9]+(-[a-z0-9]+)*\.svg$\<close>.\<close>

definition matches_name_pattern :: "string \<Rightarrow> bool" where
  "matches_name_pattern n =
     (4 \<le> length n \<and> drop (length n - 4) n = ''.svg'' \<and> kebab (take (length n - 4) n))"

text \<open>\<open>len(s.split('-'))\<close>: the number of hyphen-separated segments.\<close>

definition hyphen_segments :: "string \<Rightarrow> nat" where
  "hyphen_segments s = Suc (length (filter (\<lambda>c. c = CHR ''-'') s))"

text \<open>No two hyphens in a row.\<close>

fun no_double :: "string \<Rightarrow> bool" where
  "no_double (a # b # cs) = (\<not> (a = CHR ''-'' \<and> b = CHR ''-'') \<and> no_double (b # cs))"
| "no_double cs = True"

text \<open>A word of \<open>[a-z0-9]+\<close>, and the number of hyphens of a string.\<close>

definition plain_word :: "string \<Rightarrow> bool" where
  "plain_word t = (t \<noteq> [] \<and> list_all alnum_lc t)"

definition hyphen_count :: "string \<Rightarrow> nat" where
  "hyphen_count s = length (filter (\<lambda>c. c = CHR ''-'') s)"


subsection \<open>The file system and the library calls\<close>

text \<open>
  A directory is the list of its entries; a file holds its bytes. The working directory
  \<open>Path('.')\<close> is a \<open>directory\<close>; a path below it is the list of its components.
\<close>

datatype node = File string | Dir "(string \<times> node) list"

type_synonym directory = "(string \<times> node) list"

fun lookup :: "directory \<Rightarrow> string list \<Rightarrow> node option" where
  "lookup d [] = Some (Dir d)"
| "lookup d (n # ns) =
     (case map_of d n of
        None \<Rightarrow> None
      | Some (File c) \<Rightarrow> (if ns = [] then Some (File c) else None)
      | Some (Dir d') \<Rightarrow> lookup d' ns)"

text \<open>What \<open>ET.parse\<close> does with the bytes of a file.\<close>

datatype parse_result = Parsed element | RaisesParseError | RaisesOther error

text \<open>
  What the program takes from outside the repository:
  \<^item> \<open>os_order\<close>: the order in which the operating system lists the entries of a directory
    (\<open>iterdir\<close>, \<open>glob\<close>), some permutation of them;
  \<^item> \<open>stat_raises\<close>: \<open>os.stat\<close> fails on the path with an \<open>OSError\<close> that \<open>Path.exists\<close> and
    \<open>Path.is_dir\<close> raise again, that is any but \<open>ENOENT\<close>, \<open>ENOTDIR\<close>, \<open>EBADF\<close> and \<open>ELOOP\<close>
    (a name that is too long, a directory that may not be searched);
  \<^item> \<open>utf8_decode\<close>: the codec of \<open>open(path, 'r', encoding='utf-8')\<close>, \<open>None\<close> when the
    bytes are not UTF-8;
  \<^item> \<open>comment_search\<close>: group 1 of \<^verbatim>\<open>re.search(r'<!--\s*(.+?)\s*-->', content)\<close>, \<open>None\<close> when
    nothing matches;
  \<^item> \<open>xml_parse\<close>: \<open>ET.parse\<close>, which returns a tree, raises \<open>ParseError\<close>, or raises
    something else (\<open>LookupError\<close> or \<open>ValueError\<close> on the encoding that the document
    declares);
  \<^item> \<open>rename_raises\<close>: \<open>os.rename\<close> raises;
  \<^item> \<open>stdout_unicode\<close>: the encoding of \<open>sys.stdout\<close> has the check mark and the arrow
    that the program prints; when it has not, \<open>print\<close> raises \<open>UnicodeEncodeError\<close> on a
    line with one of them.
\<close>

record environment =
  os_order :: "directory \<Rightarrow> directory"
  stat_raises :: "string list \<Rightarrow> bool"
  utf8_decode :: "string \<Rightarrow> string option"
  comment_search :: "string \<Rightarrow> string option"
  xml_parse :: "string \<Rightarrow> parse_result"
  rename_raises :: "string list \<Rightarrow> string list \<Rightarrow> bool"
  stdout_unicode :: bool

text \<open>\<open>path.exists()\<close> and \<open>path.is_dir()\<close>\<close>

definition path_exists :: "environment \<Rightarrow> directory \<Rightarrow> string list \<Rightarrow> error + bool" where
  "path_exists env fs p = (if stat_raises env p then Inl OSError else Inr (lookup fs p \<noteq> None))"

definition is_dir :: "environment \<Rightarrow> directory \<Rightarrow> string list \<Rightarrow> error + bool" where
  "is_dir env fs p =
     (if stat_raises env p then Inl OSError
      else Inr (case lookup fs p of Some (Dir d) \<Rightarrow> True | Some (File c) \<Rightarrow> False | None \<Rightarrow> False))"

text \<open>\<open>path.iterdir()\<close>: the names of the entries, as the operating system lists them.\<close>

definition iterdir :: "environment \<Rightarrow> directory \<Rightarrow> string list \<Rightarrow> error + string list" where
  "iterdir env fs p =
     (case lookup fs p of
        None \<Rightarrow> Inl FileNotFoundError
      | Some (File c) \<Rightarrow> Inl NotADirectoryError
      | Some (Dir d) \<Rightarrow> Inr (map fst (os_order env d)))"

definition ends_with :: "string \<Rightarrow> string \<Rightarrow> bool" where
  "ends_with suffix s =
     (length suffix \<le> length s \<and> drop (length s - length suffix) s = suffix)"

text \<open>\<open>path.glob('*.svg')\<close>: the listed names that end in \<open>.svg\<close>.\<close>

definition glob_svg :: "environment \<Rightarrow> directory \<Rightarrow> string list \<Rightarrow> string list" where
  "glob_svg env fs p =
     (case lookup fs p of
        Some (Dir d) \<Rightarrow> filter (ends_with ''.svg'') (map fst (os_order env d))
      | Some (File c) \<Rightarrow> []
      | None \<Rightarrow> [])"

text \<open>The bytes that opening a path gives, and \<open>open(path, 'r', encoding='utf-8').read()\<close>.\<close>

definition read_bytes :: "directory \<Rightarrow> string list \<Rightarrow> error + string" where
  "read_bytes fs p =
     (case lookup fs p of
        None \<Rightarrow> Inl FileNotFoundError
      | Some (Dir d) \<Rightarrow> Inl IsADirectoryError
      | Some (File bytes) \<Rightarrow> Inr bytes)"

definition read_text :: "environment \<Rightarrow> directory \<Rightarrow> string list \<Rightarrow> error + string" where
  "read_text env fs p =
     bind_err (read_bytes fs p)
       (\<lambda>bytes. case utf8_decode env bytes of
                   None \<Rightarrow> Inl UnicodeDecodeError
                 | Some content \<Rightarrow> Inr content)"

text \<open>\<open>str(path)\<close>: the components joined by a slash.\<close>

fun path_str :: "string list \<Rightarrow> string" where
  "path_str [] = ''.''"
| "path_str [n] = n"
| "path_str (n # m # ns) = n @ CHR ''/'' # path_str (m # ns)"

text \<open>
  \<open>str.isspace\<close> on code points below 256, and \<open>s.strip()\<close>.
\<close>

definition is_space :: "char \<Rightarrow> bool" where
  "is_space c =
     (let n = (of_char c :: nat)
      in (9 \<le> n \<and> n \<le> 13) \<or> (28 \<le> n \<and> n \<le> 32) \<or> n = 133 \<or> n = 160)"

definition py_strip :: "string \<Rightarrow> string" where
  "py_strip s = rev (dropWhile is_space (rev (dropWhile is_space s)))"

text \<open>
  \<open>SVGAnalyzer(filepath, category)\<close>, that is \<open>__init__\<close> and \<open>_parse\<close>: the file is read and
  decoded outside any \<open>try\<close>, the comment is taken from the text, then \<open>ET.parse\<close> opens the
  file itself; only \<open>ParseError\<close> is caught and leaves \<open>root\<close> at \<open>None\<close>.
\<close>

definition new_SVGAnalyzer ::
  "environment \<Rightarrow> directory \<Rightarrow> string list \<Rightarrow> string \<Rightarrow> error + SVGAnalyzer" where
  "new_SVGAnalyzer env fs svg_path cat =
     (let self = \<lparr>filepath = path_str svg_path, category = cat, root = None, comment = None\<rparr>
      in bind_err (read_text env fs svg_path) (\<lambda>content.
           let self =
                 (case comment_search env content of
                    Some group1 \<Rightarrow> self\<lparr>comment := Some (py_strip group1)\<rparr>
                  | None \<Rightarrow> self)
           in bind_err (read_bytes fs svg_path) (\<lambda>bytes.
                case xml_parse env bytes of
                  Parsed r \<Rightarrow> Inr (self\<lparr>root := Some r\<rparr>)
                | RaisesParseError \<Rightarrow> Inr (self\<lparr>root := None\<rparr>)
                | RaisesOther e \<Rightarrow> Inl e)))"

subsection \<open>find\_all\_svgs\<close>

definition brands :: "string list" where
  "brands = [''hmh'', ''ss'']"

text \<open>
  The loop over \<open>sorted(brand_path.iterdir())\<close>: an entry that is not a directory is passed
  over, and the files of \<open>sorted(category_path.glob('*.svg'))\<close> are appended.
\<close>

fun category_loop ::
  "environment \<Rightarrow> directory \<Rightarrow> string \<Rightarrow> string list \<Rightarrow> (string list \<times> string \<times> string) list
   \<Rightarrow> error + (string list \<times> string \<times> string) list" where
  "category_loop env fs brand [] svgs = Inr svgs"
| "category_loop env fs brand (cat # rest) svgs =
     bind_err (is_dir env fs [brand, cat]) (\<lambda>d.
       if \<not> d then category_loop env fs brand rest svgs
       else category_loop env fs brand rest
              (svgs @ map (\<lambda>svg_file. ([brand, cat, svg_file], brand, cat))
                        (sort (glob_svg env fs [brand, cat]))))"

text \<open>The loop over the brands: a brand whose directory does not exist is passed over.\<close>

fun brand_loop ::
  "environment \<Rightarrow> directory \<Rightarrow> string list \<Rightarrow> (string list \<times> string \<times> string) list
   \<Rightarrow> error + (string list \<times> string \<times> string) list" where
  "brand_loop env fs [] svgs = Inr svgs"
| "brand_loop env fs (brand # rest) svgs =
     bind_err (path_exists env fs [brand]) (\<lambda>e.
       if \<not> e then brand_loop env fs rest svgs
       else bind_err (iterdir env fs [brand]) (\<lambda>names.
              bind_err (category_loop env fs brand (sort names) svgs)
                (\<lambda>svgs. brand_loop env fs rest svgs)))"

definition find_all_svgs ::
  "environment \<Rightarrow> directory \<Rightarrow> error + (string list \<times> string \<times> string) list" where
  "find_all_svgs env fs = brand_loop env fs brands []"

subsection \<open>generate\_rename\_mapping\<close>

text \<open>\<open>str(n)\<close> for a non-negative integer: its decimal digits.\<close>

fun str_nat :: "nat \<Rightarrow> string" where
  "str_nat n =
     (if n < 10 then [char_of (48 + n)]
      else str_nat (n div 10) @ [char_of (48 + n mod 10)])"

declare str_nat.simps [simp del]

record SVGRenamer =
  rename_map :: "(string \<times> string \<times> string \<times> string) list"
  collision_counter :: "string \<Rightarrow> nat"

text \<open>\<open>SVGRenamer()\<close>: an empty mapping and a \<open>defaultdict(int)\<close>.\<close>

definition new_SVGRenamer :: SVGRenamer where
  "new_SVGRenamer = \<lparr>rename_map = [], collision_counter = (\<lambda>key. 0)\<rparr>"

text \<open>\<open>str(svg_path.parent / new_name)\<close>\<close>

definition collision_key :: "string list \<Rightarrow> string \<Rightarrow> string" where
  "collision_key svg_path new_name = path_str (butlast svg_path @ [new_name])"

text \<open>Lines 317 to 319: \<open>f"{new_name[:-4]}-v{suffix_num}.svg"\<close>\<close>

definition versioned :: "string \<Rightarrow> nat \<Rightarrow> string" where
  "versioned new_name suffix_num =
     (let base_name = take (length new_name - 4) new_name
      in base_name @ ''-v'' @ str_nat suffix_num @ ''.svg'')"

text \<open>Lines 311 to 325: the body of the loop after the name has been synthesized.\<close>

definition collision_step ::
  "SVGRenamer \<Rightarrow> string list \<times> string \<times> string \<Rightarrow> string \<Rightarrow> SVGRenamer" where
  "collision_step self svg new_name =
     (let (svg_path, brand, cat) = svg;
          key = collision_key svg_path new_name;
          new_name =
            (if collision_counter self key > 0
             then versioned new_name (collision_counter self key + 1)
             else new_name);
          counter = (collision_counter self)(key := collision_counter self key + 1);
          old_name = last svg_path
      in \<lparr>rename_map = rename_map self @ [(brand, cat, old_name, new_name)],
          collision_counter = counter\<rparr>)"


definition synthesized ::
  "environment \<Rightarrow> directory \<Rightarrow> string list \<times> string \<times> string \<Rightarrow> error + string" where
  "synthesized env fs svg =
     (let (svg_path, brand, cat) = svg
      in bind_err (new_SVGAnalyzer env fs svg_path cat) generate_descriptive_name)"

fun mapping_loop ::
  "environment \<Rightarrow> directory \<Rightarrow> (string list \<times> string \<times> string) list \<Rightarrow> SVGRenamer
   \<Rightarrow> error + SVGRenamer" where
  "mapping_loop env fs [] self = Inr self"
| "mapping_loop env fs (svg # svgs) self =
     bind_err (synthesized env fs svg)
       (\<lambda>new_name. mapping_loop env fs svgs (collision_step self svg new_name))"

definition generate_rename_mapping :: "environment \<Rightarrow> directory \<Rightarrow> SVGRenamer \<Rightarrow> error + SVGRenamer" where
  "generate_rename_mapping env fs self =
     bind_err (find_all_svgs env fs) (\<lambda>svgs. mapping_loop env fs svgs self)"

subsection \<open>The collision policy in the words of the specification\<close>

text \<open>
  The destination of a file is its directory together with its synthesized name. The
  occurrence number of the entry at index \<open>i\<close> of a list is one more than the number of
  earlier entries equal to it. The first occurrence of a destination keeps the synthesized
  name, the Nth gets \<open>-vN\<close> before the extension.
\<close>

definition destinations ::
  "(string list \<times> string \<times> string) list \<Rightarrow> string list \<Rightarrow> (string list \<times> string) list" where
  "destinations svgs names = map (\<lambda>(svg, name). (butlast (fst svg), name)) (zip svgs names)"

definition occurrence :: "'a list \<Rightarrow> nat \<Rightarrow> nat" where
  "occurrence xs i = Suc (count_list (take i xs) (xs ! i))"

definition resolved_name :: "'a list \<Rightarrow> string list \<Rightarrow> nat \<Rightarrow> string" where
  "resolved_name ds names i =
     (if occurrence ds i = 1 then names ! i
      else take (length (names ! i) - 4) (names ! i) @ ''-v'' @ str_nat (occurrence ds i) @ ''.svg'')"

text \<open>The keys that the counter of the source is indexed by.\<close>

definition destination_keys ::
  "(string list \<times> string \<times> string) list \<Rightarrow> string list \<Rightarrow> string list" where
  "destination_keys svgs names = map (\<lambda>(svg, name). collision_key (fst svg) name) (zip svgs names)"



subsection \<open>execute\_rename and main\<close>

text \<open>
  \<open>os.rename\<close> between two names of one directory \<open>brand/category\<close>: the entry changes its
  name (and replaces an entry of the new name, as POSIX does for files).
\<close>

definition rename_entry :: "string \<Rightarrow> string \<Rightarrow> directory \<Rightarrow> directory" where
  "rename_entry old_name new_name d =
     (if old_name = new_name then d
      else map (\<lambda>(n, x). if n = old_name then (new_name, x) else (n, x))
             (filter (\<lambda>(n, x). n \<noteq> new_name) d))"

definition in_subdir :: "string \<Rightarrow> (directory \<Rightarrow> directory) \<Rightarrow> directory \<Rightarrow> directory" where
  "in_subdir name f d =
     map (\<lambda>(n, x). if n = name then (case x of Dir d' \<Rightarrow> (n, Dir (f d')) | File c \<Rightarrow> (n, File c))
                    else (n, x)) d"

definition moved :: "directory \<Rightarrow> string \<Rightarrow> string \<Rightarrow> string \<Rightarrow> string \<Rightarrow> directory" where
  "moved fs brand cat old_name new_name =
     in_subdir brand (in_subdir cat (rename_entry old_name new_name)) fs"

text \<open>The line that is printed for a record.\<close>

datatype line = RenamedLine | SkipNotFound | SkipTargetExists | ErrorLine

text \<open>
  Lines 369 to 388, the body of the loop of \<open>execute_rename\<close>. The two calls of \<open>exists\<close>
  stand outside the \<open>try\<close>: what they raise leaves the loop. Inside the \<open>try\<close> are
  \<open>os.rename\<close>, the increment of \<open>renamed_count\<close> and the \<open>print\<close> of the line with the check
  mark, in this order; when that \<open>print\<close> raises, the file is renamed, both counts go up
  and the line is the error line.
\<close>

definition rename_one ::
  "environment \<Rightarrow> directory \<Rightarrow> string \<times> string \<times> string \<times> string \<Rightarrow> nat \<Rightarrow> nat \<Rightarrow> line list
   \<Rightarrow> error + directory \<times> nat \<times> nat \<times> line list" where
  "rename_one env fs entry renamed_count skipped_count printed =
     (let (brand, cat, old_name, new_name) = entry;
          old_path = [brand, cat, old_name];
          new_path = [brand, cat, new_name]
      in bind_err (path_exists env fs old_path) (\<lambda>old_exists.
           if \<not> old_exists
           then Inr (fs, renamed_count, skipped_count + 1, printed @ [SkipNotFound])
           else bind_err (path_exists env fs new_path) (\<lambda>new_exists.
                  if new_exists \<and> old_path \<noteq> new_path
                  then Inr (fs, renamed_count, skipped_count + 1, printed @ [SkipTargetExists])
                  else if rename_raises env old_path new_path
                  then Inr (fs, renamed_count, skipped_count + 1, printed @ [ErrorLine])
                  else if stdout_unicode env
                  then Inr (moved fs brand cat old_name new_name,
                            renamed_count + 1, skipped_count, printed @ [RenamedLine])
                  else Inr (moved fs brand cat old_name new_name,
                            renamed_count + 1, skipped_count + 1, printed @ [ErrorLine]))))"

text \<open>
  The loop. An exception that leaves it ends the run; the file system stays as the records
  before it have left it.
\<close>

fun rename_loop ::
  "environment \<Rightarrow> (string \<times> string \<times> string \<times> string) list \<Rightarrow> directory \<Rightarrow> nat \<Rightarrow> nat
   \<Rightarrow> line list \<Rightarrow> directory \<times> (error + nat \<times> nat \<times> line list)" where
  "rename_loop env [] fs renamed_count skipped_count printed =
     (fs, Inr (renamed_count, skipped_count, printed))"
| "rename_loop env (entry # rest) fs renamed_count skipped_count printed =
     (case rename_one env fs entry renamed_count skipped_count printed of
        Inl e \<Rightarrow> (fs, Inl e)
      | Inr (fs', renamed_count', skipped_count', printed') \<Rightarrow>
          rename_loop env rest fs' renamed_count' skipped_count' printed')"

text \<open>
  What a run shows: the mapping in a dry run, else the lines of the records and the two
  counts of the summary. \<open>print_mapping\<close> prints an arrow on the line of every record.
\<close>

datatype report =
  Preview "(string \<times> string \<times> string \<times> string) list"
| Summary nat nat "line list"

definition execute_rename ::
  "environment \<Rightarrow> SVGRenamer \<Rightarrow> bool \<Rightarrow> directory \<Rightarrow> directory \<times> (error + report)" where
  "execute_rename env self dry_run fs =
     (if dry_run then
        (if rename_map self \<noteq> [] \<and> \<not> stdout_unicode env then (fs, Inl UnicodeEncodeError)
         else (fs, Inr (Preview (rename_map self))))
      else (case rename_loop env (rename_map self) fs 0 0 [] of
              (fs', Inl e) \<Rightarrow> (fs', Inl e)
            | (fs', Inr (renamed_count, skipped_count, printed)) \<Rightarrow>
                (fs', Inr (Summary renamed_count skipped_count printed))))"

text \<open>\<open>main\<close>: a fresh renamer, the mapping, then the dry run or the renames.\<close>

definition main :: "environment \<Rightarrow> string list \<Rightarrow> directory \<Rightarrow> directory \<times> (error + report)" where
  "main env argv fs =
     (let dry_run = \<not> (length argv > 1 \<and> argv ! 1 = ''--execute'');
          renamer = new_SVGRenamer
      in case generate_rename_mapping env fs renamer of
           Inl e \<Rightarrow> (fs, Inl e)
         | Inr renamer \<Rightarrow> execute_rename env renamer dry_run fs)"

subsection \<open>An example catalog\<close>

text \<open>
  An environment that agrees with the library and with Linux on the files of the examples
  below. The operating system lists a directory backwards; a path with a name of more than
  255 bytes makes \<open>os.stat\<close> fail with \<open>ENAMETOOLONG\<close>; bytes below 128 decode to
  themselves, and the one file with another byte holds \<open>0xFF\<close>, which is not UTF-8; no file
  has a comment; the parser accepts \<open>wave_doc\<close>, finds the encoding that \<open>klingon_doc\<close>
  declares unknown, and raises \<open>ParseError\<close> on the others; \<open>os.rename\<close> does not fail and
  the terminal is a Unicode terminal.
\<close>

definition wave_doc :: string where
  "wave_doc = ''<svg><path/></svg>''"

definition klingon_doc :: string where
  "klingon_doc =
     ''<?xml version='' @ [CHR 0x22] @ ''1.0'' @ [CHR 0x22] @ '' encoding='' @ [CHR 0x22]
       @ ''klingon'' @ [CHR 0x22] @ ''?><svg/>''"

definition example_env :: environment where
  "example_env =
     \<lparr>os_order = rev,
      stat_raises = (\<lambda>p. \<exists>n\<in>set p. 255 < length n),
      utf8_decode = (\<lambda>bytes. if list_all (\<lambda>c. (of_char c :: nat) < 128) bytes then Some bytes else None),
      comment_search = (\<lambda>content. None),
      xml_parse = (\<lambda>bytes. if bytes = wave_doc
                             then Parsed (Element ''svg'' [] [Element ''path'' [] []])
                             else if bytes = klingon_doc then RaisesOther LookupError
                             else RaisesParseError),
      rename_raises = (\<lambda>old_path new_path. False),
      stdout_unicode = True\<rparr>"

text \<open>
  Three wave files that get the same name (the third is cut off and does not parse) and a
  text file.
\<close>

definition example_fs :: directory where
  "example_fs =
     [(''manifest.json'', File ''[]''),
      (''hmh'', Dir
         [(''waves'', Dir [(''wave_02.svg'', File wave_doc), (''notes.txt'', File ''todo''),
                          (''wave_01.svg'', File wave_doc), (''wave_03.svg'', File ''<svg'')])])]"

definition example_svgs :: "(string list \<times> string \<times> string) list" where
  "example_svgs =
     [([''hmh'', ''waves'', ''wave_01.svg''], ''hmh'', ''waves''),
      ([''hmh'', ''waves'', ''wave_02.svg''], ''hmh'', ''waves''),
      ([''hmh'', ''waves'', ''wave_03.svg''], ''hmh'', ''waves'')]"


text \<open>
  A catalog with a heart whose bytes are Latin-1, not UTF-8, and one with a heart whose
  document declares an encoding that Python does not know; each has a wave file besides.
\<close>

definition latin1_fs :: directory where
  "latin1_fs =
     [(''hmh'', Dir
         [(''hearts'', Dir [(''heart_01.svg'', File (CHR 0xFF # ''<svg''))]),
          (''waves'', Dir [(''wave_01.svg'', File wave_doc)])])]"

definition klingon_fs :: directory where
  "klingon_fs =
     [(''hmh'', Dir
         [(''hearts'', Dir [(''heart_01.svg'', File klingon_doc)]),
          (''waves'', Dir [(''wave_01.svg'', File wave_doc)])])]"

text \<open>
  A catalog with a category directory whose name has 252 letters, so that the name
  synthesized for its file has 256, and a wave file besides.
\<close>

definition long_category :: string where
  "long_category = replicate 252 (CHR ''a'')"

definition long_fs :: directory where
  "long_fs =
     [(''hmh'', Dir
         [(long_category, Dir [(''shape_01.svg'', File wave_doc)]),
          (''waves'', Dir [(''wave_01.svg'', File wave_doc)])])]"

subsection \<open>The spec's reading of the fallback base word\<close>

text \<open>
  The specification's words for the fallback of the base word, "strip a trailing
  pluralizing letter from the category label": one trailing \<open>s\<close>, when there is one.
  The source's fallback is \<open>rstrip_s\<close>; the two are compared below.
\<close>

definition strip_plural_letter :: "string \<Rightarrow> string" where
  "strip_plural_letter cat = (if cat \<noteq> [] \<and> last cat = CHR ''s'' then butlast cat else cat)"

subsection \<open>Example inputs\<close>

definition svg_elem :: "string \<Rightarrow> (string \<times> string) list \<Rightarrow> element" where
  "svg_elem t a = Element (''{http://www.w3.org/2000/svg}'' @ t) a []"

text \<open>Five circles, four of them without fill, and one polygon.\<close>

definition heart_cluster_tree :: element where
  "heart_cluster_tree =
     Element ''{http://www.w3.org/2000/svg}svg'' [(''viewBox'', ''0 0 100 100'')]
       [svg_elem ''circle'' [(''fill'', ''none'')], svg_elem ''circle'' [(''fill'', ''none'')],
        svg_elem ''circle'' [(''fill'', ''none'')], svg_elem ''circle'' [(''fill'', ''none'')],
        svg_elem ''circle'' [(''fill'', ''#c00'')], svg_elem ''polygon'' [(''fill'', ''#c00'')]]"

definition heart_cluster :: SVGAnalyzer where
  "heart_cluster =
     \<lparr>filepath = ''hmh/hearts/heart_03.svg'', category = ''hearts'',
      root = Some heart_cluster_tree, comment = Some ''Double heart cluster, bold outline''\<rparr>"

text \<open>Two circles and no polygon, under a comment that says triple.\<close>

definition triple_heart :: SVGAnalyzer where
  "triple_heart =
     \<lparr>filepath = ''ss/hearts/heart_07.svg'', category = ''hearts'',
      root = Some (Element ''svg'' [] [svg_elem ''circle'' [], svg_elem ''circle'' [], svg_elem ''path'' []]),
      comment = Some ''Triple heart''\<rparr>"

text \<open>A compass rose: two rings and eight points.\<close>

definition compass_rose :: SVGAnalyzer where
  "compass_rose =
     \<lparr>filepath = ''ss/compasses/compass_02.svg'', category = ''compasses'',
      root = Some (Element ''svg'' []
               (replicate 2 (svg_elem ''circle'' []) @ replicate 8 (svg_elem ''polygon'' []))),
      comment = Some ''Bold compass rose''\<rparr>"

text \<open>A file that is not XML and has no comment, in a directory named \<open>s\<close>.\<close>

definition unparsed_in_s :: SVGAnalyzer where
  "unparsed_in_s = \<lparr>filepath = ''hmh/s/a.svg'', category = ''s'', root = None, comment = None\<rparr>"

text \<open>A frame of eight polygons without a comment.\<close>

definition octagon_frame :: SVGAnalyzer where
  "octagon_frame =
     \<lparr>filepath = ''hmh/frames/frame_05.svg'', category = ''frames'',
      root = Some (Element ''svg'' [] (replicate 8 (svg_elem ''polygon'' []))), comment = None\<rparr>"

text \<open>A file in a directory named \<open>dots\<close>, a label the singular table does not have.\<close>

definition unparsed_in_dots :: SVGAnalyzer where
  "unparsed_in_dots =
     \<lparr>filepath = ''hmh/dots/dot_01.svg'', category = ''dots'', root = None, comment = None\<rparr>"

section \<open>Verification\<close>

subsection \<open>The sanitiser and the name pattern\<close>

text \<open>
  A string that matches the pattern is left alone by the sanitiser (\<open>kebab_sanitize\<close>), and
  what the sanitiser returns is empty or matches the pattern (\<open>sanitize_kebab\<close>).
\<close>

lemma alnum_not_hyphen: "alnum_lc c \<Longrightarrow> c \<noteq> CHR ''-''"
  by (auto simp: alnum_lc_def)

lemma lower_char_alnum: "alnum_lc c \<Longrightarrow> lower_char c = c"
  by (auto simp: alnum_lc_def lower_char_def Let_def)

lemma lower_char_hyphen: "lower_char (CHR ''-'') = CHR ''-''"
  by (simp add: lower_char_def)

lemma pattern_chars: "pattern_from b s \<Longrightarrow> c \<in> set s \<Longrightarrow> alnum_lc c \<or> c = CHR ''-''"
  by (induction s arbitrary: b) (auto split: if_splits)

lemma pattern_collapse: "pattern_from b s \<Longrightarrow> collapse_hyphens s = s"
proof (induction s arbitrary: b rule: collapse_hyphens.induct)
  case (1 a b' cs)
  then show ?case by (auto split: if_splits dest: alnum_not_hyphen)
qed simp_all

lemma pattern_last: "pattern_from b s \<Longrightarrow> s \<noteq> [] \<Longrightarrow> last s \<noteq> CHR ''-''"
  by (induction s arbitrary: b) (auto split: if_splits dest: alnum_not_hyphen)

lemma kebab_nonempty: "kebab s \<Longrightarrow> s \<noteq> []"
  by (auto simp: kebab_def)

lemma kebab_hd: "kebab s \<Longrightarrow> hd s \<noteq> CHR ''-''"
  by (cases s) (auto simp: kebab_def split: if_splits dest: alnum_not_hyphen)

lemma strip_hyphens_id: "s \<noteq> [] \<Longrightarrow> hd s \<noteq> CHR ''-'' \<Longrightarrow> last s \<noteq> CHR ''-'' \<Longrightarrow> strip_hyphens s = s"
proof -
  assume a: "s \<noteq> []" "hd s \<noteq> CHR ''-''" "last s \<noteq> CHR ''-''"
  then have 1: "dropWhile (\<lambda>c. c = CHR ''-'') s = s" by (cases s) auto
  from a have "hd (rev s) \<noteq> CHR ''-''" by (simp add: hd_rev)
  with a have 2: "dropWhile (\<lambda>c. c = CHR ''-'') (rev s) = rev s" by (cases "rev s") auto
  show ?thesis by (simp add: strip_hyphens_def 1 2)
qed

lemma kebab_sanitize: "kebab s \<Longrightarrow> sanitize s = s"
proof -
  assume k: "kebab s"
  then have ch: "\<And>c. c \<in> set s \<Longrightarrow> alnum_lc c \<or> c = CHR ''-''"
    using pattern_chars by (auto simp: kebab_def)
  have l: "py_lower s = s"
    unfolding py_lower_def by (intro map_idI) (use ch lower_char_alnum lower_char_hyphen in blast)
  have r: "sub_disallowed s = s"
    unfolding sub_disallowed_def by (intro map_idI) (use ch in auto)
  have c: "collapse_hyphens s = s" using k pattern_collapse by (auto simp: kebab_def)
  have s: "strip_hyphens s = s"
    using k by (intro strip_hyphens_id kebab_nonempty kebab_hd pattern_last[of False]) (auto simp: kebab_def)
  show ?thesis by (simp add: sanitize_def l r c s)
qed

lemma sub_disallowed_chars: "c \<in> set (sub_disallowed s) \<Longrightarrow> alnum_lc c \<or> c = CHR ''-''"
  by (auto simp: sub_disallowed_def)

lemma collapse_hd: "collapse_hyphens (a # cs) \<noteq> [] \<and> hd (collapse_hyphens (a # cs)) = a"
  by (induction cs arbitrary: a) auto

lemma collapse_set: "set (collapse_hyphens s) = set s"
  by (induction s rule: collapse_hyphens.induct) auto

lemma collapse_no_double: "no_double (collapse_hyphens s)"
proof (induction s rule: collapse_hyphens.induct)
  case (1 a b cs)
  obtain r where r: "collapse_hyphens (b # cs) = b # r"
    using collapse_hd[of b cs] by (cases "collapse_hyphens (b # cs)") auto
  with 1 show ?case by auto
qed simp_all

lemma no_double_suffix: "no_double (p @ m) \<Longrightarrow> no_double m"
proof (induction p)
  case (Cons a p)
  then show ?case by (cases "p @ m") auto
qed simp

lemma no_double_prefix: "no_double (m @ q) \<Longrightarrow> no_double m"
proof (induction m rule: no_double.induct)
  case (1 a b cs)
  then show ?case by auto
qed simp_all

lemma rstrip_decomp: "\<exists>q. s = rev (dropWhile P (rev s)) @ q"
proof -
  have "rev s = takeWhile P (rev s) @ dropWhile P (rev s)" by simp
  then have "rev (rev s) = rev (takeWhile P (rev s) @ dropWhile P (rev s))" by simp
  then have "s = rev (dropWhile P (rev s)) @ rev (takeWhile P (rev s))"
    by (simp del: takeWhile_dropWhile_id)
  then show ?thesis by blast
qed

lemma strip_no_double: "no_double s \<Longrightarrow> no_double (strip_hyphens s)"
proof -
  assume n: "no_double s"
  let ?P = "\<lambda>c. c = CHR ''-''"
  have "s = takeWhile ?P s @ dropWhile ?P s" by simp
  with n have 1: "no_double (dropWhile ?P s)" using no_double_suffix by metis
  obtain q where "dropWhile ?P s = strip_hyphens s @ q"
    using rstrip_decomp[of "dropWhile ?P s" ?P] by (auto simp: strip_hyphens_def)
  with 1 show ?thesis using no_double_prefix by metis
qed

lemma strip_set: "c \<in> set (strip_hyphens s) \<Longrightarrow> c \<in> set s"
proof -
  assume "c \<in> set (strip_hyphens s)"
  then have "c \<in> set (dropWhile (\<lambda>c. c = CHR ''-'') (rev (dropWhile (\<lambda>c. c = CHR ''-'') s)))"
    by (simp add: strip_hyphens_def)
  then have "c \<in> set (rev (dropWhile (\<lambda>c. c = CHR ''-'') s))" by (rule set_dropWhileD)
  then have "c \<in> set (dropWhile (\<lambda>c. c = CHR ''-'') s)" by simp
  then show ?thesis by (rule set_dropWhileD)
qed

lemma rstrip_last:
  assumes "rev (dropWhile P (rev x)) \<noteq> []"
  shows "\<not> P (last (rev (dropWhile P (rev x))))"
proof -
  from assms have ne: "dropWhile P (rev x) \<noteq> []" by simp
  then have "\<not> P (hd (dropWhile P (rev x)))" by (rule hd_dropWhile)
  with ne show ?thesis by (simp add: last_rev)
qed

lemma rstrip_hd:
  assumes "rev (dropWhile P (rev x)) \<noteq> []"
  shows "hd (rev (dropWhile P (rev x))) = hd x"
proof -
  obtain q where q: "x = rev (dropWhile P (rev x)) @ q" using rstrip_decomp by blast
  have "hd (rev (dropWhile P (rev x)) @ q) = hd (rev (dropWhile P (rev x)))"
    using assms by (rule hd_append2)
  with q show ?thesis by metis
qed

lemma strip_ends:
  assumes "strip_hyphens s \<noteq> []"
  shows "hd (strip_hyphens s) \<noteq> CHR ''-'' \<and> last (strip_hyphens s) \<noteq> CHR ''-''"
proof -
  let ?P = "\<lambda>c. c = CHR ''-''"
  let ?x = "dropWhile ?P s"
  have ne: "rev (dropWhile ?P (rev ?x)) \<noteq> []" using assms by (simp add: strip_hyphens_def)
  have x: "?x \<noteq> []"
  proof
    assume "?x = []"
    then have "rev (dropWhile ?P (rev ?x)) = []" by (simp only: rev.simps dropWhile.simps)
    with ne show False by (rule notE)
  qed
  have l: "last (strip_hyphens s) \<noteq> CHR ''-''"
    using rstrip_last[OF ne] by (simp add: strip_hyphens_def)
  have "\<not> ?P (hd ?x)" using x by (rule hd_dropWhile)
  then have "hd (strip_hyphens s) \<noteq> CHR ''-''"
    using rstrip_hd[OF ne] by (simp add: strip_hyphens_def)
  with l show ?thesis by simp
qed

lemma pattern_fromI:
  "\<forall>c\<in>set s. alnum_lc c \<or> c = CHR ''-'' \<Longrightarrow> no_double s \<Longrightarrow> (s \<noteq> [] \<longrightarrow> last s \<noteq> CHR ''-'')
   \<Longrightarrow> b \<or> (s \<noteq> [] \<and> hd s \<noteq> CHR ''-'') \<Longrightarrow> pattern_from b s"
proof (induction s arbitrary: b)
  case Nil
  then show ?case by simp
next
  case (Cons c cs)
  show ?case
  proof (cases "alnum_lc c")
    case True
    have "pattern_from True cs"
      using Cons.prems by (intro Cons.IH) (cases cs; auto)+
    with True show ?thesis by simp
  next
    case False
    with Cons.prems have c: "c = CHR ''-''" and b: b by auto
    from Cons.prems c have ne: "cs \<noteq> []" by auto
    from Cons.prems c ne have hd: "hd cs \<noteq> CHR ''-''" by (cases cs) auto
    have "pattern_from False cs"
      using Cons.prems ne hd by (intro Cons.IH) (cases cs; auto)+
    with False c b show ?thesis by simp
  qed
qed

lemma sanitize_kebab: "sanitize s \<noteq> [] \<Longrightarrow> kebab (sanitize s)"
proof -
  assume ne: "sanitize s \<noteq> []"
  let ?t = "collapse_hyphens (sub_disallowed (py_lower s))"
  have ch: "\<forall>c\<in>set (sanitize s). alnum_lc c \<or> c = CHR ''-''"
    using strip_set[of _ ?t] sub_disallowed_chars by (auto simp: sanitize_def collapse_set)
  have nd: "no_double (sanitize s)"
    unfolding sanitize_def by (intro strip_no_double collapse_no_double)
  have e: "hd (sanitize s) \<noteq> CHR ''-'' \<and> last (sanitize s) \<noteq> CHR ''-''"
    using ne strip_ends[of ?t] by (simp add: sanitize_def)
  show ?thesis unfolding kebab_def using ch nd e ne by (intro pattern_fromI) auto
qed

lemma dropWhile_keeps: "c \<in> set s \<Longrightarrow> \<not> P c \<Longrightarrow> c \<in> set (dropWhile P s)"
  by (induction s) auto

lemma sanitize_nonempty:
  assumes "c \<in> set s" "alnum_lc (lower_char c)"
  shows "sanitize s \<noteq> []"
proof -
  let ?d = "lower_char c"
  have nh: "?d \<noteq> CHR ''-''" using assms alnum_not_hyphen by blast
  have "?d \<in> set (sub_disallowed (py_lower s))"
    using assms by (force simp: sub_disallowed_def py_lower_def)
  then have "?d \<in> set (collapse_hyphens (sub_disallowed (py_lower s)))"
    by (simp add: collapse_set)
  then have "?d \<in> set (sanitize s)"
    using nh by (simp add: sanitize_def strip_hyphens_def dropWhile_keeps)
  then show ?thesis by auto
qed

subsection \<open>The tokens of the analysis\<close>

text \<open>
  The keyword lookups never raise; every token is a word of the pattern, and only the two
  point tokens of the compasses carry a hyphen.
\<close>

lemma bind_err_Inr: "bind_err (Inr x) f = f x"
  by (simp add: bind_err_def)

lemma keyword_in_comment_total:
  "keyword_in_comment kw self =
     Inr (case comment self of None \<Rightarrow> False | Some c \<Rightarrow> c \<noteq> [] \<and> contains kw (py_lower c))"
  by (simp add: keyword_in_comment_def truthy_def comment_lower_def bind_err_def split: option.splits)

lemma vocab_plain:
  "plain_word ''double''" "plain_word ''triple''" "plain_word ''quad''" "plain_word ''cluster''"
  "plain_word ''outline''" "plain_word ''range''" "plain_word ''layered''" "plain_word ''dual''"
  "plain_word ''single''" "plain_word ''line''" "plain_word ''ringed''" "plain_word ''dotted''"
  "plain_word ''centered''" "plain_word ''decorated''" "plain_word ''scalloped''"
  "plain_word ''hexagon''" "plain_word ''octagon''" "plain_word ''diamond''" "plain_word ''star''"
  "plain_word ''corner''" "plain_word ''rounded''" "plain_word ''oval''" "plain_word ''asymmetric''"
  "plain_word ''zigzag''" "plain_word ''compact''" "plain_word ''thought''" "plain_word ''cloud''"
  "plain_word ''tail''" "plain_word ''circle''" "plain_word ''square''"
  by (simp_all add: plain_word_def alnum_lc_def)

lemma descriptors_plain: "list_all plain_word descriptors"
  by (simp add: descriptors_def plain_word_def alnum_lc_def)

lemma vocab_kebab: "kebab ''eight-point''" "kebab ''four-point''"
  by (simp_all add: kebab_def alnum_lc_def)

lemma plain_word_kebab: "plain_word t \<Longrightarrow> kebab t"
proof -
  have "list_all alnum_lc s \<Longrightarrow> pattern_from b s = (b \<or> s \<noteq> [])" for s b
    by (induction s arbitrary: b) auto
  then show "plain_word t \<Longrightarrow> kebab t" by (simp add: plain_word_def kebab_def)
qed

lemma plain_word_hyphens: "plain_word t \<Longrightarrow> hyphen_count t = 0"
  by (auto simp: plain_word_def hyphen_count_def list_all_iff filter_empty_conv dest: alnum_not_hyphen)

lemma category_rule_total:
  "\<exists>r. category_rule self p c pa re e l tokens = Inr r"
  by (simp add: category_rule_def keyword_in_comment_total bind_err_Inr Let_def)

lemma category_rule_shape:
  assumes "category_rule self p c pa re e l tokens = Inr r"
  shows "take (length tokens) r = tokens \<and> list_all kebab (drop (length tokens) r)
         \<and> hyphen_count (concat (drop (length tokens) r)) \<le> 1
         \<and> (category self \<noteq> ''compasses'' \<longrightarrow> list_all plain_word (drop (length tokens) r))"
  using assms
  by (auto simp: category_rule_def keyword_in_comment_total bind_err_Inr Let_def vocab_plain
      vocab_kebab plain_word_kebab hyphen_count_def split: if_splits)

lemma comment_tokens_plain:
  "list_all plain_word tokens \<Longrightarrow> list_all plain_word (comment_tokens self tokens)"
  using descriptors_plain
  by (auto simp: comment_tokens_def Let_def vocab_plain list_all_iff split: option.splits)

lemma count_multiplicity_plain:
  "list_all plain_word tokens \<Longrightarrow> list_all plain_word (count_multiplicity cat c p tokens)"
  by (simp add: count_multiplicity_def vocab_plain)

lemma outline_rule_plain:
  "list_all plain_word tokens \<Longrightarrow> list_all plain_word (outline_rule rt n tokens)"
  by (simp add: outline_rule_def vocab_plain split: option.splits)

lemma hyphen_count_append: "hyphen_count (a @ b) = hyphen_count a + hyphen_count b"
  by (simp add: hyphen_count_def)

lemma plain_list_hyphens: "list_all plain_word ts \<Longrightarrow> hyphen_count (concat ts) = 0"
  by (induction ts) (simp_all add: hyphen_count_append plain_word_hyphens, simp add: hyphen_count_def)

lemma plain_list_kebab: "list_all plain_word ts \<Longrightarrow> list_all kebab ts"
  by (simp add: list_all_iff plain_word_kebab)

lemma analyze_total: "\<exists>tokens. analyze_shape_characteristics self = Inr tokens"
  by (simp add: analyze_shape_characteristics_def Let_def category_rule_total)

lemma analyze_shape:
  assumes "analyze_shape_characteristics self = Inr tokens"
  shows "list_all kebab tokens \<and> hyphen_count (concat tokens) \<le> 1
         \<and> (category self \<noteq> ''compasses'' \<longrightarrow> list_all plain_word tokens)"
proof -
  let ?c = "count_elements self"
  let ?t = "outline_rule (root self)
              (?c ''polygon'' + ?c ''circle'' + ?c ''path'' + ?c ''rect'' + ?c ''ellipse'')
              (count_multiplicity (category self) (?c ''circle'') (?c ''polygon'')
                (comment_tokens self []))"
  have pl: "list_all plain_word ?t"
    by (intro outline_rule_plain count_multiplicity_plain comment_tokens_plain) simp
  from assms have cr: "category_rule self (?c ''polygon'') (?c ''circle'') (?c ''path'')
      (?c ''rect'') (?c ''ellipse'') (?c ''line'') ?t = Inr tokens"
    by (simp add: analyze_shape_characteristics_def Let_def)
  note sh = category_rule_shape[OF cr]
  let ?x = "drop (length ?t) tokens"
  have tk: "tokens = ?t @ ?x" using sh by (metis append_take_drop_id)
  have 1: "list_all kebab tokens"
    using sh plain_list_kebab[OF pl] by (subst tk) simp
  have "hyphen_count (concat tokens) = hyphen_count (concat ?t) + hyphen_count (concat ?x)"
    by (subst tk) (simp add: hyphen_count_append)
  then have 2: "hyphen_count (concat tokens) \<le> 1"
    using sh plain_list_hyphens[OF pl] by simp
  have 3: "category self \<noteq> ''compasses'' \<longrightarrow> list_all plain_word tokens"
    using sh pl by (subst tk) simp
  from 1 2 3 show ?thesis by simp
qed

subsection \<open>Name parts and joins\<close>

lemma unique_loop_set: "set (unique_loop ts seen u) \<subseteq> set u \<union> set ts"
  by (induction ts seen u rule: unique_loop.induct) auto

lemma unique_loop_hyphens:
  "hyphen_count (concat (unique_loop ts seen u)) \<le> hyphen_count (concat u) + hyphen_count (concat ts)"
  by (induction ts seen u rule: unique_loop.induct) (auto simp: hyphen_count_append)

lemma unique_loop_hd: "u \<noteq> [] \<Longrightarrow> unique_loop ts seen u \<noteq> [] \<and> hd (unique_loop ts seen u) = hd u"
  by (induction ts seen u rule: unique_loop.induct) auto

lemma unique_loop_first:
  "ts \<noteq> [] \<Longrightarrow> unique_loop ts {} [] \<noteq> [] \<and> hd (unique_loop ts {} []) = hd ts"
  by (cases ts) (simp_all add: unique_loop_hd)

lemma hyphen_count_take: "hyphen_count (concat (take n xs)) \<le> hyphen_count (concat xs)"
proof -
  have "hyphen_count (concat xs) = hyphen_count (concat (take n xs)) + hyphen_count (concat (drop n xs))"
    by (metis append_take_drop_id concat_append hyphen_count_append)
  then show ?thesis by simp
qed

lemma name_parts_length: "length (name_parts tokens base) \<le> 4 \<and> name_parts tokens base \<noteq> []"
  by (simp add: name_parts_def Let_def)

lemma name_parts_set: "set (name_parts tokens base) \<subseteq> set tokens \<union> {base}"
  using unique_loop_set[of tokens "{}" "[]"]
  by (auto simp: name_parts_def Let_def dest: in_set_takeD)

lemma name_parts_last: "base \<in> set (name_parts tokens base)"
  by (simp add: name_parts_def Let_def)

lemma name_parts_hyphens:
  "hyphen_count (concat (name_parts tokens base)) \<le> hyphen_count (concat tokens) + hyphen_count base"
  using unique_loop_hyphens[of tokens "{}" "[]"]
        hyphen_count_take[of 3 "unique_loop tokens {} []"]
  by (simp add: name_parts_def Let_def hyphen_count_append) (simp add: hyphen_count_def)

lemma name_parts_hd: "tokens \<noteq> [] \<Longrightarrow> hd (name_parts tokens base) = hd tokens"
  using unique_loop_first[of tokens]
  by (auto simp: name_parts_def Let_def hd_append)

lemma hyphen_not_alnum: "\<not> alnum_lc (CHR ''-'')"
  by (simp add: alnum_lc_def)

lemma pattern_from_join:
  "pattern_from b s \<Longrightarrow> kebab t \<Longrightarrow> pattern_from b (s @ CHR ''-'' # t)"
  by (induction s arbitrary: b) (auto simp: kebab_def hyphen_not_alnum split: if_splits)

lemma join_kebab: "parts \<noteq> [] \<Longrightarrow> list_all kebab parts \<Longrightarrow> kebab (join_hyphen parts)"
proof (induction parts rule: join_hyphen.induct)
  case (3 p q ps)
  then have "kebab (join_hyphen (q # ps))" by simp
  moreover from 3 have "pattern_from False p" by (simp add: kebab_def)
  ultimately show ?case by (simp add: kebab_def pattern_from_join)
qed simp_all

lemma join_hyphens:
  "hyphen_count (join_hyphen parts) = hyphen_count (concat parts) + (length parts - 1)"
  by (induction parts rule: join_hyphen.induct) (simp_all add: hyphen_count_def)

lemma join_set: "p \<in> set parts \<Longrightarrow> set p \<subseteq> set (join_hyphen parts)"
  by (induction parts rule: join_hyphen.induct) auto

lemma category_singular_plain: "category_singular cat = Some b \<Longrightarrow> plain_word b"
  by (auto simp: category_singular_def plain_word_def alnum_lc_def split: if_splits)

lemma matches_name_pattern_svg: "matches_name_pattern (stem @ ''.svg'') = kebab stem"
  by (simp add: matches_name_pattern_def)

lemma kebab_has_alnum: "kebab t \<Longrightarrow> \<exists>c\<in>set t. alnum_lc (lower_char c)"
  by (cases t) (auto simp: kebab_def lower_char_alnum split: if_splits)

subsection \<open>Facts about single rules\<close>

lemma example_comment_lower:
  "py_lower ''Double heart cluster, bold outline'' = ''double heart cluster, bold outline''"
  by code_simp

lemma example_comment_scan:
  "contains ''double'' ''double heart cluster, bold outline''"
  "filter (\<lambda>descriptor. contains descriptor ''double heart cluster, bold outline'') descriptors
     = [''bold'', ''outline'']"
  by code_simp+

lemma descriptors_not_multiplicity:
  "''double'' \<notin> set descriptors" "''octagon'' \<notin> set descriptors"
  by (simp_all add: descriptors_def)

lemma category_rule_hearts:
  "category self = ''hearts'' \<Longrightarrow> category_rule self p c pa re e l tokens = Inr tokens"
  by (simp add: category_rule_def)

lemma comment_tokens_none: "comment self = None \<Longrightarrow> comment_tokens self tokens = tokens"
  by (simp add: comment_tokens_def)

lemma comment_tokens_set:
  "set (comment_tokens self tokens)
     \<subseteq> set tokens \<union> {''double'', ''triple'', ''quad'', ''cluster''} \<union> set descriptors"
  by (auto simp: comment_tokens_def Let_def split: option.splits simp del: contains.simps)

lemma count_multiplicity_set:
  "set (count_multiplicity cat c p tokens) \<subseteq> set tokens \<union> {''cluster'', ''triple'', ''double''}"
  by (auto simp: count_multiplicity_def)

lemma outline_rule_set: "set (outline_rule rt n tokens) \<subseteq> set tokens \<union> {''outline''}"
  by (auto simp: outline_rule_def split: option.splits)

lemma category_rule_no_comment:
  assumes "comment self = None" and "category_rule self p c pa re e l tokens = Inr r"
  shows "set r \<subseteq> set tokens \<union>
           {''range'', ''layered'', ''dual'', ''single'', ''triple'', ''double'', ''line'',
            ''ringed'', ''eight-point'', ''four-point'', ''dotted'', ''centered'', ''decorated'',
            ''scalloped'', ''hexagon'', ''rounded'', ''oval'', ''thought'', ''cloud'', ''circle'',
            ''square''}
         \<and> (''hexagon'' \<in> set r \<longrightarrow> ''hexagon'' \<in> set tokens \<or> (category self = ''frames'' \<and> 6 \<le> p))"
  using assms
  by (auto simp: category_rule_def keyword_in_comment_total bind_err_Inr Let_def split: if_splits)

lemma category_rule_frames:
  assumes "category self = ''frames''" and "category_rule self p c pa re e l tokens = Inr r"
  shows "set r \<subseteq> set tokens \<union> {''double'', ''hexagon'', ''corner''}
         \<and> (8 \<le> p \<longrightarrow> ''hexagon'' \<in> set r)"
  using assms
  by (auto simp: category_rule_def keyword_in_comment_total bind_err_Inr Let_def split: if_splits)

subsection \<open>Stripping the trailing s\<close>

lemma takeWhile_replicate:
  "takeWhile (\<lambda>c. c = a) xs = replicate (length (takeWhile (\<lambda>c. c = a) xs)) a"
  by (induction xs) auto

lemma rstrip_s_decomp: "\<exists>k. s = rstrip_s s @ replicate k (CHR ''s'')"
proof -
  let ?P = "\<lambda>c. c = CHR ''s''"
  have "rev s = takeWhile ?P (rev s) @ dropWhile ?P (rev s)" by simp
  then have "rev (rev s) = rev (takeWhile ?P (rev s) @ dropWhile ?P (rev s))" by (rule arg_cong)
  then have "s = rstrip_s s @ rev (takeWhile ?P (rev s))"
    by (simp add: rstrip_s_def del: takeWhile_dropWhile_id)
  moreover have "rev (takeWhile ?P (rev s)) = replicate (length (takeWhile ?P (rev s))) (CHR ''s'')"
    using takeWhile_replicate[of "CHR ''s''" "rev s"] by (metis rev_replicate)
  ultimately show ?thesis by metis
qed

lemma rstrip_s_last: "rstrip_s s = [] \<or> last (rstrip_s s) \<noteq> CHR ''s''"
  using rstrip_last[of "\<lambda>c. c = CHR ''s''" s] by (auto simp: rstrip_s_def)

lemma rstrip_s_id: "s = [] \<or> last s \<noteq> CHR ''s'' \<Longrightarrow> rstrip_s s = s"
proof (cases "rev s")
  case Nil
  then show ?thesis by (simp add: rstrip_s_def)
next
  case (Cons a as)
  assume "s = [] \<or> last s \<noteq> CHR ''s''"
  with Cons have "a \<noteq> CHR ''s''" by (metis Nil_is_rev_conv last_rev list.sel(1) list.distinct(1) rev_rev_ident)
  with Cons have "dropWhile (\<lambda>c. c = CHR ''s'') (rev s) = rev s" by simp
  then show ?thesis by (simp add: rstrip_s_def)
qed

lemma rstrip_s_snoc: "rstrip_s (b @ [CHR ''s'']) = rstrip_s b"
  by (simp add: rstrip_s_def)

subsection \<open>Decimal numbers and version suffixes\<close>

lemma bind_err_eq_Inr: "bind_err m f = Inr y \<longleftrightarrow> (\<exists>x. m = Inr x \<and> f x = Inr y)"
  by (cases m) (simp_all add: bind_err_def)

lemma digit_char_inj: "a < 10 \<Longrightarrow> b < 10 \<Longrightarrow> char_of (48 + a :: nat) = char_of (48 + b) \<Longrightarrow> a = b"
proof -
  assume a: "a < 10" and b: "b < 10" and e: "char_of (48 + a :: nat) = char_of (48 + b)"
  from e have "of_char (char_of (48 + a :: nat)) = (of_char (char_of (48 + b)) :: nat)" by simp
  then have "(48 + a) mod 256 = (48 + b) mod 256" by (simp only: of_char_of)
  with a b show ?thesis by simp
qed

lemma str_nat_nonempty: "str_nat n \<noteq> []"
  by (subst str_nat.simps) simp

lemma str_nat_length: "10 \<le> n \<Longrightarrow> 2 \<le> length (str_nat n)"
proof -
  assume "10 \<le> n"
  then have "str_nat n = str_nat (n div 10) @ [char_of (48 + n mod 10)]"
    by (subst str_nat.simps) simp
  moreover have "1 \<le> length (str_nat (n div 10))"
    using str_nat_nonempty[of "n div 10"] by (cases "str_nat (n div 10)") auto
  ultimately show ?thesis by simp
qed

lemma str_nat_inj: "str_nat m = str_nat n \<Longrightarrow> m = n"
proof (induction m arbitrary: n rule: str_nat.induct)
  case (1 m)
  show ?case
  proof (cases "m < 10")
    case True
    then have sm: "str_nat m = [char_of (48 + m)]" by (subst str_nat.simps) simp
    show ?thesis
    proof (cases "n < 10")
      case True
      then have "str_nat n = [char_of (48 + n)]" by (subst str_nat.simps) simp
      with sm "1.prems" have "char_of (48 + m) = char_of (48 + n)" by simp
      with \<open>m < 10\<close> True show ?thesis by (rule digit_char_inj)
    next
      case False
      then have "2 \<le> length (str_nat n)" by (intro str_nat_length) simp
      moreover have "length (str_nat m) = 1" using sm by simp
      ultimately show ?thesis using "1.prems" by simp
    qed
  next
    case False
    then have sm: "str_nat m = str_nat (m div 10) @ [char_of (48 + m mod 10)]"
      by (subst str_nat.simps) simp
    show ?thesis
    proof (cases "n < 10")
      case True
      then have "str_nat n = [char_of (48 + n)]" by (subst str_nat.simps) simp
      then have "length (str_nat n) = 1" by simp
      moreover from False have "2 \<le> length (str_nat m)" by (intro str_nat_length) simp
      ultimately show ?thesis using "1.prems" by simp
    next
      case nf: False
      then have sn: "str_nat n = str_nat (n div 10) @ [char_of (48 + n mod 10)]"
        by (subst str_nat.simps) simp
      from sm sn "1.prems" have e: "str_nat (m div 10) = str_nat (n div 10)"
        and d: "char_of (48 + m mod 10) = char_of (48 + n mod 10)" by simp_all
      from "1.IH"[OF False e] have q: "m div 10 = n div 10" .
      have "m mod 10 = n mod 10" using d by (intro digit_char_inj) simp_all
      with q show ?thesis by (metis div_mult_mod_eq)
    qed
  qed
qed

lemma str_nat_2: "str_nat 2 = ''2''"
  by code_simp

lemma versioned_svg: "versioned (stem @ ''.svg'') n = stem @ ''-v'' @ str_nat n @ ''.svg''"
  by (simp add: versioned_def)

lemma versioned_inj: "versioned name m = versioned name n \<Longrightarrow> m = n"
  by (simp add: versioned_def Let_def str_nat_inj)

lemma versioned_longer: "length name < length (versioned name n)"
  using str_nat_nonempty[of n] by (cases "str_nat n") (simp_all add: versioned_def Let_def)

subsection \<open>Analyzers that agree on category, root and comment\<close>


lemma analyze_unparsed:
  "root self = None \<Longrightarrow>
     analyze_shape_characteristics self = category_rule self 0 0 0 0 0 0 (comment_tokens self [])"
  by (simp add: analyze_shape_characteristics_def count_elements_def count_multiplicity_def
      outline_rule_def Let_def)

lemma category_rule_zero_plain:
  assumes "category_rule self 0 0 0 0 0 0 tokens = Inr r" "list_all plain_word tokens"
  shows "list_all plain_word r"
  using assms
  by (auto simp: category_rule_def keyword_in_comment_total bind_err_Inr Let_def vocab_plain
      split: if_splits)

subsection \<open>The stem of a name\<close>

lemma stem_general:
  assumes "list_all kebab tokens"
  shows "(matches_name_pattern (descriptive_stem tokens cat @ ''.svg'') \<longleftrightarrow> descriptive_stem tokens cat \<noteq> [])
       \<and> (tokens \<noteq> [] \<or> (\<exists>c\<in>set (base_word cat). alnum_lc (lower_char c))
            \<longrightarrow> descriptive_stem tokens cat \<noteq> [])"
proof -
  let ?base = "base_word cat"
  let ?parts = "name_parts tokens ?base"
  let ?stem = "sanitize (join_hyphen ?parts)"
  have pat: "matches_name_pattern (?stem @ ''.svg'') \<longleftrightarrow> ?stem \<noteq> []"
    using sanitize_kebab[of "join_hyphen ?parts"] kebab_nonempty[of ?stem]
    by (auto simp: matches_name_pattern_svg)
  have ne: "?stem \<noteq> []"
    if h: "tokens \<noteq> [] \<or> (\<exists>c\<in>set ?base. alnum_lc (lower_char c))"
  proof -
    have "\<exists>p\<in>set ?parts. \<exists>c\<in>set p. alnum_lc (lower_char c)"
    proof (cases "tokens = []")
      case True
      with h show ?thesis using name_parts_last[of ?base tokens] by blast
    next
      case False
      then have "hd tokens \<in> set tokens" by simp
      then have "kebab (hd tokens)" using assms by (simp add: list_all_iff)
      then have "\<exists>c\<in>set (hd tokens). alnum_lc (lower_char c)" by (rule kebab_has_alnum)
      moreover have "hd tokens \<in> set ?parts"
        using name_parts_hd[OF False, of ?base] name_parts_length[of tokens ?base]
        by (metis hd_in_set)
      ultimately show ?thesis by blast
    qed
    then obtain p c where "p \<in> set ?parts" "c \<in> set p" "alnum_lc (lower_char c)" by blast
    then show ?thesis using join_set[of p ?parts] sanitize_nonempty[of c "join_hyphen ?parts"] by blast
  qed
  from pat ne show ?thesis by (simp add: descriptive_stem_def)
qed

lemma stem_table:
  assumes "list_all kebab tokens" "category_singular cat = Some b"
  shows "descriptive_stem tokens cat = join_hyphen (name_parts tokens b)
       \<and> kebab (descriptive_stem tokens cat)
       \<and> hyphen_segments (descriptive_stem tokens cat) \<le> hyphen_count (concat tokens) + 4"
proof -
  have base: "base_word cat = b" using assms(2) by (simp add: base_word_def)
  have pb: "plain_word b" using assms(2) by (rule category_singular_plain)
  let ?parts = "name_parts tokens b"
  let ?stem = "descriptive_stem tokens cat"
  have "list_all kebab ?parts"
    using name_parts_set[of tokens b] assms(1) plain_word_kebab[OF pb]
    by (auto simp: list_all_iff)
  then have kj: "kebab (join_hyphen ?parts)"
    using name_parts_length[of tokens b] by (intro join_kebab) simp_all
  then have id: "?stem = join_hyphen ?parts"
    using kebab_sanitize by (simp add: descriptive_stem_def base)
  have hc: "hyphen_count ?stem = hyphen_count (concat ?parts) + (length ?parts - 1)"
    using id join_hyphens by simp
  have hp: "hyphen_count (concat ?parts) \<le> hyphen_count (concat tokens)"
    using name_parts_hyphens[of tokens b] plain_word_hyphens[OF pb] by simp
  have len: "length ?parts \<le> 4" using name_parts_length by blast
  have seg: "hyphen_segments ?stem = Suc (hyphen_count ?stem)"
    by (simp add: hyphen_segments_def hyphen_count_def)
  have "hyphen_segments ?stem \<le> hyphen_count (concat tokens) + 4"
    using seg hc hp len by linarith
  with id kj show ?thesis by simp
qed

subsection \<open>The mapping loop\<close>

text \<open>
  A run of the loop that returns is a fold of \<open>collision_step\<close> over the files and their
  synthesized names; the fold is then solved in closed form, first by the keys of the
  counter, then by the destinations.
\<close>

lemma mapping_loop_fold:
  "mapping_loop env fs svgs r0 = Inr r \<Longrightarrow>
     \<exists>names. length names = length svgs
       \<and> (\<forall>i<length svgs. synthesized env fs (svgs ! i) = Inr (names ! i))
       \<and> r = fold (\<lambda>(svg, name) self. collision_step self svg name) (zip svgs names) r0"
proof (induction svgs arbitrary: r0)
  case Nil
  then show ?case by simp
next
  case (Cons svg svgs)
  from Cons.prems obtain name where n: "synthesized env fs svg = Inr name"
    and l: "mapping_loop env fs svgs (collision_step r0 svg name) = Inr r"
    by (auto simp: bind_err_eq_Inr)
  from Cons.IH[OF l] obtain names where names: "length names = length svgs"
    "\<forall>i<length svgs. synthesized env fs (svgs ! i) = Inr (names ! i)"
    "r = fold (\<lambda>(svg, name) self. collision_step self svg name) (zip svgs names)
           (collision_step r0 svg name)"
    by blast
  have "\<forall>i<length (svg # svgs). synthesized env fs ((svg # svgs) ! i) = Inr ((name # names) ! i)"
    using n names(2) by (auto simp: nth_Cons split: nat.splits)
  with names(1,3) show ?case
    by (intro exI[of _ "name # names"]) simp
qed

lemma fold_steps:
  assumes "length svgs = length names"
  shows "\<exists>tail. rename_map (fold (\<lambda>(svg, name) self. collision_step self svg name) (zip svgs names) r0)
                 = rename_map r0 @ tail
           \<and> length tail = length svgs
           \<and> (\<forall>i<length svgs. tail ! i =
                 (fst (snd (svgs ! i)), snd (snd (svgs ! i)), last (fst (svgs ! i)),
                  (let k = destination_keys svgs names ! i;
                       n = Suc (collision_counter r0 k + count_list (take i (destination_keys svgs names)) k)
                   in if n = 1 then names ! i else versioned (names ! i) n)))"
  using assms
proof (induction svgs names arbitrary: r0 rule: list_induct2)
  case Nil
  then show ?case by simp
next
  case (Cons svg svgs name names)
  let ?step = "\<lambda>(svg, name) self. collision_step self svg name"
  let ?r1 = "collision_step r0 svg name"
  let ?k0 = "collision_key (fst svg) name"
  let ?e0 = "(fst (snd svg), snd (snd svg), last (fst svg),
             if collision_counter r0 ?k0 > 0 then versioned name (collision_counter r0 ?k0 + 1) else name)"
  have rm1: "rename_map ?r1 = rename_map r0 @ [?e0]"
    by (simp add: collision_step_def Let_def split: prod.splits)
  have c1: "collision_counter ?r1 = (collision_counter r0)(?k0 := collision_counter r0 ?k0 + 1)"
    by (simp add: collision_step_def Let_def split: prod.splits)
  let ?keys = "destination_keys svgs names"
  have keys: "destination_keys (svg # svgs) (name # names) = ?k0 # ?keys"
    by (simp add: destination_keys_def)
  from Cons.IH[of ?r1] obtain tail where t:
    "rename_map (fold ?step (zip svgs names) ?r1) = rename_map ?r1 @ tail"
    "length tail = length svgs"
    "\<forall>i<length svgs. tail ! i =
                 (fst (snd (svgs ! i)), snd (snd (svgs ! i)), last (fst (svgs ! i)),
                  (let k = ?keys ! i;
                       n = Suc (collision_counter ?r1 k + count_list (take i ?keys) k)
                   in if n = 1 then names ! i else versioned (names ! i) n))"
    by blast
  have 1: "rename_map (fold ?step (zip (svg # svgs) (name # names)) r0) = rename_map r0 @ (?e0 # tail)"
    using t(1) rm1 by simp
  have 2: "length (?e0 # tail) = length (svg # svgs)" using t(2) by simp
  have 3: "(?e0 # tail) ! i =
                 (fst (snd ((svg # svgs) ! i)), snd (snd ((svg # svgs) ! i)), last (fst ((svg # svgs) ! i)),
                  (let k = destination_keys (svg # svgs) (name # names) ! i;
                       n = Suc (collision_counter r0 k
                                + count_list (take i (destination_keys (svg # svgs) (name # names))) k)
                   in if n = 1 then (name # names) ! i else versioned ((name # names) ! i) n))"
    if "i < length (svg # svgs)" for i
  proof (cases i)
    case 0
    then show ?thesis by (simp add: keys)
  next
    case (Suc j)
    with that have j: "j < length svgs" by simp
    with t(3) have "tail ! j =
                 (fst (snd (svgs ! j)), snd (snd (svgs ! j)), last (fst (svgs ! j)),
                  (let k = ?keys ! j;
                       n = Suc (collision_counter ?r1 k + count_list (take j ?keys) k)
                   in if n = 1 then names ! j else versioned (names ! j) n))"
      by blast
    then show ?thesis using Suc by (simp add: keys c1 Let_def)
  qed
  from 1 2 3 show ?case by blast
qed

lemma count_list_take_less:
  assumes "i < j" "j \<le> length keys"
  shows "Suc (count_list (take i keys) (keys ! i)) \<le> count_list (take j keys) (keys ! i)"
proof -
  from assms have i: "i < length keys" by simp
  from assms have "j = Suc i + (j - Suc i)" by simp
  then have "take j keys = take (Suc i) keys @ take (j - Suc i) (drop (Suc i) keys)"
    by (metis take_add)
  also have "take (Suc i) keys = take i keys @ [keys ! i]"
    using i by (rule take_Suc_conv_app_nth)
  finally show ?thesis by simp
qed

lemma synthesized_svg: "synthesized env fs svg = Inr name \<Longrightarrow> \<exists>stem. name = stem @ ''.svg''"
  by (auto simp: synthesized_def generate_descriptive_name_def bind_err_eq_Inr split: prod.splits)

lemma destination_keys_nth:
  "length names = length svgs \<Longrightarrow> i < length svgs \<Longrightarrow>
     destination_keys svgs names ! i = collision_key (fst (svgs ! i)) (names ! i)"
  by (simp add: destination_keys_def)

lemma destination_keys_length:
  "length names = length svgs \<Longrightarrow> length (destination_keys svgs names) = length svgs"
  by (simp add: destination_keys_def)

lemma occurrence_less:
  assumes "i < j" "j < length xs" "xs ! i = xs ! j"
  shows "occurrence xs i < occurrence xs j"
  using count_list_take_less[of i j xs] assms by (simp add: occurrence_def)

lemma resolved_name_versioned:
  "resolved_name ds names i =
     (if occurrence ds i = 1 then names ! i else versioned (names ! i) (occurrence ds i))"
  by (simp add: resolved_name_def versioned_def)

lemma resolved_name_distinct:
  assumes "occurrence ds i < occurrence ds j" "names ! i = names ! j"
  shows "resolved_name ds names i \<noteq> resolved_name ds names j"
proof (cases "occurrence ds i = 1")
  case True
  with assms have "resolved_name ds names i = names ! j"
    and "resolved_name ds names j = versioned (names ! j) (occurrence ds j)"
    by (simp_all add: resolved_name_versioned)
  then show ?thesis using versioned_longer[of "names ! j" "occurrence ds j"] by auto
next
  case False
  with assms have "resolved_name ds names i = versioned (names ! j) (occurrence ds i)"
    and "resolved_name ds names j = versioned (names ! j) (occurrence ds j)"
    by (simp_all add: resolved_name_versioned occurrence_def)
  then show ?thesis using assms(1) by (metis versioned_inj less_irrefl)
qed

lemma sanitize_chars: "c \<in> set (sanitize s) \<Longrightarrow> alnum_lc c \<or> c = CHR ''-''"
  using strip_set[of c "collapse_hyphens (sub_disallowed (py_lower s))"] sub_disallowed_chars
  by (auto simp: sanitize_def collapse_set)

lemma slash_not_alnum: "\<not> alnum_lc (CHR ''/'')"
  by (simp add: alnum_lc_def)

lemma synthesized_no_slash: "synthesized env fs svg = Inr name \<Longrightarrow> CHR ''/'' \<notin> set name"
  using sanitize_chars[of "CHR ''/''"] slash_not_alnum
  by (auto simp: synthesized_def generate_descriptive_name_def descriptive_stem_def bind_err_eq_Inr
      split: prod.splits)

lemma split_at_first:
  "x \<notin> set xs \<Longrightarrow> x \<notin> set xs' \<Longrightarrow> xs @ x # ys = xs' @ x # ys' \<Longrightarrow> xs = xs' \<and> ys = ys'"
proof (induction xs arbitrary: xs')
  case Nil
  then show ?case by (cases xs') auto
next
  case (Cons a as)
  then show ?case by (cases xs') auto
qed

lemma path_str_inj:
  assumes "\<forall>n\<in>set a. CHR ''/'' \<notin> set n" "\<forall>n\<in>set b. CHR ''/'' \<notin> set n"
    and "a \<noteq> []" "b \<noteq> []" "path_str a = path_str b"
  shows "a = b"
  using assms
proof (induction a arbitrary: b rule: path_str.induct)
  case 1
  then show ?case by simp
next
  case (2 n)
  show ?case
  proof (cases b)
    case Nil
    with 2 show ?thesis by simp
  next
    case (Cons k ks)
    show ?thesis
    proof (cases ks)
      case Nil
      with Cons 2 show ?thesis by simp
    next
      case (Cons k' ks')
      with \<open>b = k # ks\<close> 2 have "n = k @ CHR ''/'' # path_str (k' # ks')" by simp
      then have "CHR ''/'' \<in> set n" by simp
      with 2 show ?thesis by simp
    qed
  qed
next
  case (3 n m ns)
  show ?case
  proof (cases b)
    case Nil
    with 3 show ?thesis by simp
  next
    case (Cons k ks)
    show ?thesis
    proof (cases ks)
      case Nil
      with Cons 3 have "k = n @ CHR ''/'' # path_str (m # ns)" by simp
      then have "CHR ''/'' \<in> set k" by simp
      with 3 Cons show ?thesis by simp
    next
      case c2: (Cons k' ks')
      with Cons 3 have e: "n @ CHR ''/'' # path_str (m # ns) = k @ CHR ''/'' # path_str (k' # ks')"
        by simp
      have "CHR ''/'' \<notin> set n" "CHR ''/'' \<notin> set k" using 3 Cons by simp_all
      with e have "n = k \<and> path_str (m # ns) = path_str (k' # ks')"
        by (intro split_at_first[of "CHR ''/''"])
      then have nk: "n = k" and r: "path_str (m # ns) = path_str (k' # ks')" by simp_all
      have "m # ns = k' # ks'"
        using 3 Cons c2 r by (intro "3.IH") simp_all
      with nk Cons c2 show ?thesis by simp
    qed
  qed
qed

lemma count_list_map_inj_at:
  "\<forall>y\<in>set xs. f y = f x \<longrightarrow> y = x \<Longrightarrow> count_list (map f xs) (f x) = count_list xs x"
  by (induction xs) auto

lemma destination_keys_map:
  "destination_keys svgs names = map (\<lambda>(d, n). path_str (d @ [n])) (destinations svgs names)"
  by (simp add: destination_keys_def destinations_def collision_key_def split_def)

lemma occurrence_keys:
  assumes "length names = length svgs" "i < length svgs"
    and "\<forall>svg\<in>set svgs. \<forall>n\<in>set (fst svg). CHR ''/'' \<notin> set n"
    and "\<forall>name\<in>set names. CHR ''/'' \<notin> set name"
  shows "occurrence (destination_keys svgs names) i = occurrence (destinations svgs names) i"
proof -
  let ?kf = "\<lambda>(d, n). path_str (d @ [n])"
  let ?ds = "destinations svgs names"
  have len: "length ?ds = length svgs" using assms(1) by (simp add: destinations_def)
  have clean: "\<forall>n\<in>set (d @ [name]). CHR ''/'' \<notin> set n" if "(d, name) \<in> set ?ds" for d name
  proof -
    from that obtain svg where "svg \<in> set svgs" "name \<in> set names" "d = butlast (fst svg)"
      by (auto simp: destinations_def dest!: set_zip_leftD set_zip_rightD
          dest: set_zip_leftD set_zip_rightD elim!: in_set_zipE)
    with assms(3,4) show ?thesis by (auto dest: in_set_butlastD)
  qed
  have inj: "?kf y = ?kf x \<longrightarrow> y = x" if "x \<in> set ?ds" "y \<in> set ?ds" for x y
  proof
    assume e: "?kf y = ?kf x"
    obtain d n where x: "x = (d, n)" by (cases x)
    obtain d' n' where y: "y = (d', n')" by (cases y)
    have "d' @ [n'] = d @ [n]"
      using clean[of d n] clean[of d' n'] that x y e by (intro path_str_inj) simp_all
    with x y show "y = x" by simp
  qed
  have xi: "?ds ! i \<in> set ?ds" using assms(2) len by simp
  have sub: "\<forall>y\<in>set (take i ?ds). ?kf y = ?kf (?ds ! i) \<longrightarrow> y = ?ds ! i"
    using inj[OF xi] by (auto dest: in_set_takeD)
  have "count_list (take i (map ?kf ?ds)) (map ?kf ?ds ! i)
          = count_list (map ?kf (take i ?ds)) (?kf (?ds ! i))"
    using assms(2) len by (simp add: take_map)
  also have "\<dots> = count_list (take i ?ds) (?ds ! i)"
    using sub by (rule count_list_map_inj_at)
  finally show ?thesis by (simp add: occurrence_def destination_keys_map)
qed

subsection \<open>The order in which the operating system lists a directory\<close>


















subsection \<open>What the mapping takes from the catalog\<close>










subsection \<open>The fallback base word and files that raise ParseError\<close>

text \<open>
  Where the source does what the specification says: the fallback agrees with the stripping
  of one letter on every label outside the table that does not end in two \<open>s\<close>, and a
  file that is read and decoded and on which the parser raises \<open>ParseError\<close> gets an
  analyzer without root, whose name comes from the category and the comment alone.
\<close>

lemma base_word_one_letter:
  assumes "category_singular cat = None"
    and "strip_plural_letter cat = [] \<or> last (strip_plural_letter cat) \<noteq> CHR ''s''"
  shows "base_word cat = strip_plural_letter cat"
proof -
  have b: "base_word cat = rstrip_s cat" using assms(1) by (simp add: base_word_def)
  show ?thesis
  proof (cases "cat \<noteq> [] \<and> last cat = CHR ''s''")
    case True
    then have sp: "strip_plural_letter cat = butlast cat" by (simp add: strip_plural_letter_def)
    from True have "cat = butlast cat @ [CHR ''s'']" by (metis append_butlast_last_id)
    then have "rstrip_s cat = rstrip_s (butlast cat)" using rstrip_s_snoc by metis
    also have "\<dots> = butlast cat" using assms(2) sp by (intro rstrip_s_id) simp
    finally show ?thesis using b sp by simp
  next
    case False
    then have "strip_plural_letter cat = cat" by (auto simp: strip_plural_letter_def)
    moreover from False have "rstrip_s cat = cat" by (intro rstrip_s_id) auto
    ultimately show ?thesis using b by simp
  qed
qed

lemma parse_error_degrades:
  assumes "read_text env fs svg_path = Inr content"
    and "read_bytes fs svg_path = Inr bytes"
    and "xml_parse env bytes = RaisesParseError"
  shows "\<exists>self tokens stem.
           new_SVGAnalyzer env fs svg_path cat = Inr self
         \<and> root self = None \<and> (\<forall>t. count_elements self t = 0)
         \<and> comment self = map_option py_strip (comment_search env content)
         \<and> analyze_shape_characteristics self = Inr tokens
         \<and> category_rule self 0 0 0 0 0 0 (comment_tokens self []) = Inr tokens
         \<and> generate_descriptive_name self = Inr (stem @ ''.svg'')
         \<and> (matches_name_pattern (stem @ ''.svg'') \<longleftrightarrow> stem \<noteq> [])
         \<and> (cat \<in> dom category_singular \<longrightarrow>
               matches_name_pattern (stem @ ''.svg'') \<and> hyphen_segments stem \<le> 4)"
proof -
  let ?self = "\<lparr>filepath = path_str svg_path, category = cat, root = None,
                comment = map_option py_strip (comment_search env content)\<rparr>"
  have n: "new_SVGAnalyzer env fs svg_path cat = Inr ?self"
    using assms
    by (cases "comment_search env content") (simp_all add: new_SVGAnalyzer_def bind_err_def)
  have z: "\<forall>t. count_elements ?self t = 0" by (simp add: count_elements_def)
  obtain tokens where tk: "analyze_shape_characteristics ?self = Inr tokens"
    using analyze_total by blast
  have cr: "category_rule ?self 0 0 0 0 0 0 (comment_tokens ?self []) = Inr tokens"
    using tk analyze_unparsed[of ?self] by simp
  have "list_all plain_word (comment_tokens ?self [])" by (intro comment_tokens_plain) simp
  with cr have pl: "list_all plain_word tokens" by (rule category_rule_zero_plain)
  then have kb: "list_all kebab tokens" by (rule plain_list_kebab)
  let ?stem = "descriptive_stem tokens cat"
  have g: "generate_descriptive_name ?self = Inr (?stem @ ''.svg'')"
    by (simp add: generate_descriptive_name_def tk bind_err_Inr)
  note sg = stem_general[OF kb, of cat]
  have m: "matches_name_pattern (?stem @ ''.svg'') \<longleftrightarrow> ?stem \<noteq> []"
    using sg by blast
  have tab: "matches_name_pattern (?stem @ ''.svg'') \<and> hyphen_segments ?stem \<le> 4"
    if "cat \<in> dom category_singular"
  proof -
    from that obtain b where "category_singular cat = Some b" by blast
    from stem_table[OF kb this] have k: "kebab ?stem"
      and h: "hyphen_segments ?stem \<le> hyphen_count (concat tokens) + 4" by blast+
    from h plain_list_hyphens[OF pl] have "hyphen_segments ?stem \<le> 4" by simp
    with k show ?thesis by (simp add: matches_name_pattern_svg)
  qed
  show ?thesis
  proof (intro exI[of _ ?self] exI[of _ tokens] exI[of _ ?stem] conjI impI)
    show "new_SVGAnalyzer env fs svg_path cat = Inr ?self" by (rule n)
    show "root ?self = None" by simp
    show "\<forall>t. count_elements ?self t = 0" by (rule z)
    show "comment ?self = map_option py_strip (comment_search env content)" by simp
    show "analyze_shape_characteristics ?self = Inr tokens" by (rule tk)
    show "category_rule ?self 0 0 0 0 0 0 (comment_tokens ?self []) = Inr tokens" by (rule cr)
    show "generate_descriptive_name ?self = Inr (?stem @ ''.svg'')" by (rule g)
    show "matches_name_pattern (?stem @ ''.svg'') \<longleftrightarrow> ?stem \<noteq> []" by (rule m)
  next
    assume "cat \<in> dom category_singular"
    from tab[OF this] show "matches_name_pattern (?stem @ ''.svg'')" ..
  next
    assume "cat \<in> dom category_singular"
    from tab[OF this] show "hyphen_segments ?stem \<le> 4" ..
  qed
qed

subsection \<open>Validity of generated names\<close>

text \<open>
  C1 (as amended). For every analyzer object, \<open>analyze_shape_characteristics\<close> and
  \<open>generate_descriptive_name\<close> return, the name is the sanitised join of at most three
  descriptor tokens and the base word, and it matches
  \<^verbatim>\<open>^[a-z0-9]+(-[a-z0-9]+)*\.svg$\<close> exactly when its stem is not empty. The stem is not
  empty as soon as a token was produced or the base word has an ASCII letter or digit; with
  no token the stem is the sanitised base word. For each category of the singular table the
  name matches the pattern, the sanitiser changes nothing, an empty token list gives the
  bare base word, and the stem has at most 5 hyphen-separated segments, at most 4 when the
  category is not \<open>compasses\<close> (whose tokens \<open>eight-point\<close> and \<open>four-point\<close> carry a
  hyphen of their own).
\<close>

theorem name_validity:
  "\<exists>tokens stem.
      analyze_shape_characteristics self = Inr tokens
    \<and> generate_descriptive_name self = Inr (stem @ ''.svg'')
    \<and> stem = sanitize (join_hyphen (name_parts tokens (base_word (category self))))
    \<and> length (name_parts tokens (base_word (category self))) \<le> 4
    \<and> (matches_name_pattern (stem @ ''.svg'') \<longleftrightarrow> stem \<noteq> [])
    \<and> (tokens \<noteq> [] \<or> (\<exists>c\<in>set (base_word (category self)). alnum_lc (lower_char c))
         \<longrightarrow> stem \<noteq> [])
    \<and> (tokens = [] \<longrightarrow> stem = sanitize (base_word (category self)))
    \<and> (category self \<in> dom category_singular \<longrightarrow>
          matches_name_pattern (stem @ ''.svg'')
        \<and> stem = join_hyphen (name_parts tokens (base_word (category self)))
        \<and> (tokens = [] \<longrightarrow> stem = base_word (category self))
        \<and> hyphen_segments stem \<le> 5
        \<and> (category self \<noteq> ''compasses'' \<longrightarrow> hyphen_segments stem \<le> 4))"
proof -
  obtain tokens where tk: "analyze_shape_characteristics self = Inr tokens"
    using analyze_total by blast
  let ?base = "base_word (category self)"
  let ?parts = "name_parts tokens ?base"
  let ?stem = "sanitize (join_hyphen ?parts)"
  note sh = analyze_shape[OF tk]
  from sh have kb: "list_all kebab tokens" by simp
  have st: "descriptive_stem tokens (category self) = ?stem" by (simp add: descriptive_stem_def)
  have gen: "generate_descriptive_name self = Inr (?stem @ ''.svg'')"
    by (simp add: generate_descriptive_name_def tk bind_err_Inr descriptive_stem_def)
  have len: "length ?parts \<le> 4" using name_parts_length by blast
  note sg = stem_general[OF kb, of "category self", unfolded st]
  have emp: "?stem = sanitize ?base" if "tokens = []"
    using that by (simp add: name_parts_def)
  have tab: "matches_name_pattern (?stem @ ''.svg'')
        \<and> ?stem = join_hyphen ?parts
        \<and> (tokens = [] \<longrightarrow> ?stem = ?base)
        \<and> hyphen_segments ?stem \<le> 5
        \<and> (category self \<noteq> ''compasses'' \<longrightarrow> hyphen_segments ?stem \<le> 4)"
    if "category self \<in> dom category_singular"
  proof -
    from that obtain b where b: "category_singular (category self) = Some b" by blast
    then have base: "?base = b" by (simp add: base_word_def)
    note t3 = stem_table[OF kb b, unfolded st]
    have id: "?stem = join_hyphen ?parts" using t3 base by simp
    have k: "kebab ?stem" using t3 by blast
    have h: "hyphen_segments ?stem \<le> hyphen_count (concat tokens) + 4" using t3 by blast
    have m: "matches_name_pattern (?stem @ ''.svg'')" using k by (simp add: matches_name_pattern_svg)
    have "join_hyphen ?parts = ?base" if "tokens = []"
      using that by (simp add: name_parts_def)
    with id have e: "tokens = [] \<longrightarrow> ?stem = ?base" by metis
    have s5: "hyphen_segments ?stem \<le> 5" using h sh by simp
    have s4: "hyphen_segments ?stem \<le> 4" if "category self \<noteq> ''compasses''"
      using that sh h by (simp add: plain_list_hyphens)
    from m id e s5 s4 show ?thesis by blast
  qed
  show ?thesis
    using tk gen len sg emp tab by blast
qed

text \<open>The theorem at the compass rose: a table category, a matching name, and five segments.\<close>

theorem name_validity_witness:
  "category compass_rose \<in> dom category_singular
   \<and> (\<exists>stem. generate_descriptive_name compass_rose = Inr (stem @ ''.svg'')
        \<and> matches_name_pattern (stem @ ''.svg'') \<and> hyphen_segments stem \<le> 5)"
proof -
  have c: "category compass_rose \<in> dom category_singular"
    by (simp add: compass_rose_def category_singular_def)
  with name_validity[of compass_rose] show ?thesis by blast
qed

text \<open>
  The claim as first stated (every category, at most 4 segments) fails twice: the compass
  rose gets a name of five segments, and an unparsable file without comment in a directory
  named \<open>s\<close> gets the name \<open>.svg\<close>, which does not match the pattern.
\<close>

theorem name_validity_counterexample:
  "generate_descriptive_name compass_rose = Inr ''bold-ringed-eight-point-compass.svg''
   \<and> hyphen_segments ''bold-ringed-eight-point-compass'' = 5
   \<and> generate_descriptive_name unparsed_in_s = Inr ''.svg''
   \<and> \<not> matches_name_pattern ''.svg''"
  by code_simp

subsection \<open>The worked example of the specification\<close>

text \<open>
  C2. An analyzer of category \<open>hearts\<close> with the comment
  "Double heart cluster, bold outline", a parsed tree with 5 circles and 1 polygon, 6 shapes
  in all and 4 elements without fill, yields the tokens double, bold, outline, cluster; the
  name parts keep the first three and add the base word \<open>heart\<close>; the generated name is
  \<open>double-bold-outline-heart.svg\<close>.
\<close>

theorem spec_example_hearts:
  assumes "category self = ''hearts''"
    and "comment self = Some ''Double heart cluster, bold outline''"
    and "root self = Some r"
    and "count_elements self ''circle'' = 5"
    and "count_elements self ''polygon'' = 1"
    and "count_elements self ''polygon'' + count_elements self ''circle''
         + count_elements self ''path'' + count_elements self ''rect''
         + count_elements self ''ellipse'' = 6"
    and "fill_none_count r = 4"
  shows "analyze_shape_characteristics self = Inr [''double'', ''bold'', ''outline'', ''cluster'']
       \<and> name_parts [''double'', ''bold'', ''outline'', ''cluster''] (base_word (category self))
           = [''double'', ''bold'', ''outline'', ''heart'']
       \<and> generate_descriptive_name self = Inr ''double-bold-outline-heart.svg''"
proof -
  have ct: "comment_tokens self [] = [''double'', ''bold'', ''outline'']"
    using assms(2)
    by (simp add: comment_tokens_def example_comment_lower example_comment_scan
        del: contains.simps)
  have an: "analyze_shape_characteristics self = Inr [''double'', ''bold'', ''outline'', ''cluster'']"
    using assms
    by (simp add: analyze_shape_characteristics_def Let_def ct count_multiplicity_def
        outline_rule_def category_rule_def)
  have np: "name_parts [''double'', ''bold'', ''outline'', ''cluster''] (base_word ''hearts'')
           = [''double'', ''bold'', ''outline'', ''heart'']"
    by code_simp
  have st: "sanitize (join_hyphen [''double'', ''bold'', ''outline'', ''heart''])
           = ''double-bold-outline-heart''"
    by code_simp
  show ?thesis
    using assms(1) an np st
    by (simp add: generate_descriptive_name_def bind_err_Inr descriptive_stem_def)
qed

text \<open>The theorem at a concrete tree with these counts.\<close>

theorem spec_example_hearts_witness:
  "analyze_shape_characteristics heart_cluster = Inr [''double'', ''bold'', ''outline'', ''cluster'']
   \<and> generate_descriptive_name heart_cluster = Inr ''double-bold-outline-heart.svg''"
proof -
  have c: "count_elements heart_cluster ''circle'' = 5" "count_elements heart_cluster ''polygon'' = 1"
    "count_elements heart_cluster ''path'' = 0" "count_elements heart_cluster ''rect'' = 0"
    "count_elements heart_cluster ''ellipse'' = 0"
    by code_simp+
  have f: "fill_none_count heart_cluster_tree = 4" by code_simp
  show ?thesis
    using spec_example_hearts[of heart_cluster heart_cluster_tree] c f
    by (simp add: heart_cluster_def)
qed

subsection \<open>Two multiplicity tokens\<close>

text \<open>
  C5. For category \<open>hearts\<close>, a comment whose lower-case form contains "triple" (and neither
  "double" nor "dual", which the first rule would prefer), exactly 2 circles and no polygon,
  the emitted token sequence starts with \<open>triple\<close>, goes on with the adjectives of the
  comment, and then holds \<open>double\<close>, added by the count rule: both multiplicity tokens are
  there before truncation.
\<close>

theorem redundant_multiplicity:
  assumes "category self = ''hearts''"
    and "comment self = Some c"
    and "contains ''triple'' (py_lower c)"
    and "\<not> contains ''double'' (py_lower c)" and "\<not> contains ''dual'' (py_lower c)"
    and "count_elements self ''circle'' = 2"
    and "count_elements self ''polygon'' = 0"
  shows "\<exists>rest. analyze_shape_characteristics self =
            Inr (''triple'' # filter (\<lambda>d. contains d (py_lower c)) descriptors @ ''double'' # rest)
          \<and> set rest \<subseteq> {''outline''}"
proof -
  let ?adj = "filter (\<lambda>d. contains d (py_lower c)) descriptors"
  from assms(3) have ne: "c \<noteq> []" by (auto simp: py_lower_def)
  have ct: "comment_tokens self [] = ''triple'' # ?adj"
    using assms(2-5) ne by (simp add: comment_tokens_def del: contains.simps)
  have nd: "''double'' \<notin> set (''triple'' # ?adj)"
    using descriptors_not_multiplicity by simp
  have cm: "count_multiplicity ''hearts'' 2 0 (''triple'' # ?adj) = ''triple'' # ?adj @ [''double'']"
    using nd by (simp add: count_multiplicity_def del: contains.simps)
  have "\<exists>rest. outline_rule rt n (''triple'' # ?adj @ [''double'']) = ''triple'' # ?adj @ ''double'' # rest
          \<and> set rest \<subseteq> {''outline''}" for rt n
    by (simp add: outline_rule_def split: option.splits del: contains.simps)
  then show ?thesis
    using assms(1,6,7)
    by (simp add: analyze_shape_characteristics_def Let_def ct cm category_rule_hearts
        del: contains.simps)
qed

text \<open>The theorem at the comment "Triple heart" over two circles and a path.\<close>

theorem redundant_multiplicity_witness:
  "contains ''triple'' (py_lower ''Triple heart'')
   \<and> count_elements triple_heart ''circle'' = 2 \<and> count_elements triple_heart ''polygon'' = 0
   \<and> (\<exists>rest. analyze_shape_characteristics triple_heart = Inr (''triple'' # ''double'' # rest)
         \<and> set rest \<subseteq> {''outline''})"
proof -
  have h: "contains ''triple'' (py_lower ''Triple heart'')"
    "\<not> contains ''double'' (py_lower ''Triple heart'')"
    "\<not> contains ''dual'' (py_lower ''Triple heart'')"
    "count_elements triple_heart ''circle'' = 2" "count_elements triple_heart ''polygon'' = 0"
    by code_simp+
  have a: "filter (\<lambda>d. contains d (py_lower ''Triple heart'')) descriptors = []" by code_simp
  have "\<exists>rest. analyze_shape_characteristics triple_heart = Inr (''triple'' # ''double'' # rest)
         \<and> set rest \<subseteq> {''outline''}"
    using redundant_multiplicity[of triple_heart "''Triple heart''"] h a
    by (simp add: triple_heart_def del: contains.simps)
  with h show ?thesis by blast
qed

subsection \<open>No annotation\<close>

text \<open>
  C6. When the analyzer has no comment, every keyword lookup of the category branches
  returns \<open>False\<close> without raising, \<open>analyze_shape_characteristics\<close> returns a token
  list, and none of the tokens that only a keyword brings (octagon, diamond, star, corner,
  zigzag, compact, tail, asymmetric) is in it; \<open>hexagon\<close> is in it only through the polygon
  count of the \<open>frames\<close> branch, never through the lookup of "hex".
\<close>

theorem absent_annotation:
  assumes "comment self = None"
  shows "(\<forall>kw. keyword_in_comment kw self = Inr False)
       \<and> (\<exists>tokens. analyze_shape_characteristics self = Inr tokens
            \<and> set tokens \<inter> {''octagon'', ''diamond'', ''star'', ''corner'', ''zigzag'',
                              ''compact'', ''tail'', ''asymmetric''} = {}
            \<and> (''hexagon'' \<in> set tokens \<longrightarrow>
                  category self = ''frames'' \<and> 6 \<le> count_elements self ''polygon''))"
proof -
  have kw: "\<forall>kw. keyword_in_comment kw self = Inr False"
    using assms by (simp add: keyword_in_comment_total)
  obtain tokens where tk: "analyze_shape_characteristics self = Inr tokens"
    using analyze_total by blast
  let ?c = "count_elements self"
  let ?t = "outline_rule (root self)
              (?c ''polygon'' + ?c ''circle'' + ?c ''path'' + ?c ''rect'' + ?c ''ellipse'')
              (count_multiplicity (category self) (?c ''circle'') (?c ''polygon'') [])"
  have pre: "set ?t \<subseteq> {''cluster'', ''triple'', ''double'', ''outline''}"
    using outline_rule_set count_multiplicity_set[of _ _ _ "[]"] by fastforce
  from tk assms have cr: "category_rule self (?c ''polygon'') (?c ''circle'') (?c ''path'')
      (?c ''rect'') (?c ''ellipse'') (?c ''line'') ?t = Inr tokens"
    by (simp add: analyze_shape_characteristics_def Let_def comment_tokens_none)
  note nc = category_rule_no_comment[OF assms cr]
  have 1: "set tokens \<inter> {''octagon'', ''diamond'', ''star'', ''corner'', ''zigzag'',
                              ''compact'', ''tail'', ''asymmetric''} = {}"
    using nc pre by auto
  have "''hexagon'' \<notin> set ?t" using pre by auto
  with nc have 2: "''hexagon'' \<in> set tokens \<longrightarrow>
                  category self = ''frames'' \<and> 6 \<le> count_elements self ''polygon''"
    by blast
  from kw tk 1 2 show ?thesis by blast
qed

text \<open>The theorem at a frame of eight polygons without comment.\<close>

theorem absent_annotation_witness:
  "comment octagon_frame = None
   \<and> keyword_in_comment ''corner'' octagon_frame = Inr False
   \<and> (\<exists>tokens. analyze_shape_characteristics octagon_frame = Inr tokens
         \<and> set tokens \<inter> {''octagon'', ''diamond'', ''star'', ''corner'', ''zigzag'',
                           ''compact'', ''tail'', ''asymmetric''} = {})"
proof -
  have c: "comment octagon_frame = None" by (simp add: octagon_frame_def)
  note a = absent_annotation[OF c]
  from a have k: "keyword_in_comment ''corner'' octagon_frame = Inr False"
    by (elim conjE allE)
  from a obtain tokens where "analyze_shape_characteristics octagon_frame = Inr tokens"
    "set tokens \<inter> {''octagon'', ''diamond'', ''star'', ''corner'', ''zigzag'',
                           ''compact'', ''tail'', ''asymmetric''} = {}"
    by (elim conjE exE)
  then have "\<exists>tokens. analyze_shape_characteristics octagon_frame = Inr tokens
         \<and> set tokens \<inter> {''octagon'', ''diamond'', ''star'', ''corner'', ''zigzag'',
                           ''compact'', ''tail'', ''asymmetric''} = {}"
    by (intro exI conjI)
  with c k show ?thesis by (intro conjI)
qed

subsection \<open>The frames branch\<close>

text \<open>
  C10. For category \<open>frames\<close> the token \<open>octagon\<close> is never emitted: the branch asks for
  6 polygons or more before it asks for 8 or more, so a polygon count of 8 or more yields
  \<open>hexagon\<close>.
\<close>

theorem frames_never_octagon:
  assumes "category self = ''frames''"
  shows "\<exists>tokens. analyze_shape_characteristics self = Inr tokens
           \<and> ''octagon'' \<notin> set tokens
           \<and> (8 \<le> count_elements self ''polygon'' \<longrightarrow> ''hexagon'' \<in> set tokens)"
proof -
  obtain tokens where tk: "analyze_shape_characteristics self = Inr tokens"
    using analyze_total by blast
  let ?c = "count_elements self"
  let ?t = "outline_rule (root self)
              (?c ''polygon'' + ?c ''circle'' + ?c ''path'' + ?c ''rect'' + ?c ''ellipse'')
              (count_multiplicity (category self) (?c ''circle'') (?c ''polygon'')
                (comment_tokens self []))"
  have "set ?t \<subseteq> {''double'', ''triple'', ''quad'', ''cluster'', ''outline''} \<union> set descriptors"
    using outline_rule_set count_multiplicity_set comment_tokens_set[of self "[]"]
    by fastforce
  then have pre: "''octagon'' \<notin> set ?t"
    using descriptors_not_multiplicity by auto
  from tk have cr: "category_rule self (?c ''polygon'') (?c ''circle'') (?c ''path'')
      (?c ''rect'') (?c ''ellipse'') (?c ''line'') ?t = Inr tokens"
    by (simp add: analyze_shape_characteristics_def Let_def)
  note fr = category_rule_frames[OF assms cr]
  have 1: "''octagon'' \<notin> set tokens" using fr pre by auto
  have 2: "8 \<le> count_elements self ''polygon'' \<longrightarrow> ''hexagon'' \<in> set tokens"
    using fr by simp
  from tk 1 2 show ?thesis by (intro exI conjI)
qed

text \<open>The theorem at a frame of eight polygons.\<close>

theorem frames_never_octagon_witness:
  "category octagon_frame = ''frames'' \<and> count_elements octagon_frame ''polygon'' = 8
   \<and> (\<exists>tokens. analyze_shape_characteristics octagon_frame = Inr tokens
         \<and> ''octagon'' \<notin> set tokens \<and> ''hexagon'' \<in> set tokens)"
proof -
  have c: "category octagon_frame = ''frames''" by (simp add: octagon_frame_def)
  have p: "count_elements octagon_frame ''polygon'' = 8" by code_simp
  from frames_never_octagon[OF c] obtain tokens where
    "analyze_shape_characteristics octagon_frame = Inr tokens" "''octagon'' \<notin> set tokens"
    "8 \<le> count_elements octagon_frame ''polygon'' \<longrightarrow> ''hexagon'' \<in> set tokens"
    by (elim conjE exE)
  with p have "\<exists>tokens. analyze_shape_characteristics octagon_frame = Inr tokens
         \<and> ''octagon'' \<notin> set tokens \<and> ''hexagon'' \<in> set tokens"
    by (intro exI conjI) simp_all
  with c p show ?thesis by (intro conjI)
qed


subsection \<open>Collisions\<close>

text \<open>
  Claim C3, as the code has it. Let the files of a catalog be processed in order by a fresh
  renamer, with path components free of \<open>/\<close> (as the names of a POSIX directory listing
  are). Occurrences are counted per destination, that is per pair of directory and
  synthesized name, by \<^const>\<open>destinations\<close> and \<^const>\<open>occurrence\<close>, which are written from the
  words of the specification and not from the string key of the source. Then the record of
  every file carries the synthesized name when the file is the first occurrence of its
  destination, and the stem followed by \<open>-vN\<close> and the extension when it is the Nth, N
  \<ge> 2. Two files of one directory with the same synthesized name have different occurrence
  numbers and get different final names; when the later of the two is the second occurrence,
  the earlier one keeps the plain name and the later one gets \<open>-v2\<close>. The last condition is
  needed: of three such files the second and the third get \<open>-v2\<close> and \<open>-v3\<close>.
\<close>

theorem collision_resolution:
  assumes "mapping_loop env fs svgs new_SVGRenamer = Inr r"
    and "\<forall>svg\<in>set svgs. \<forall>n\<in>set (fst svg). CHR ''/'' \<notin> set n"
  shows "\<exists>names. length names = length svgs
       \<and> (\<forall>i<length svgs. synthesized env fs (svgs ! i) = Inr (names ! i))
       \<and> length (rename_map r) = length svgs
       \<and> (\<forall>i<length svgs. \<exists>stem. names ! i = stem @ ''.svg'' \<and>
             rename_map r ! i =
               (fst (snd (svgs ! i)), snd (snd (svgs ! i)), last (fst (svgs ! i)),
                if occurrence (destinations svgs names) i = 1 then stem @ ''.svg''
                else stem @ ''-v'' @ str_nat (occurrence (destinations svgs names) i) @ ''.svg''))
       \<and> (\<forall>i<length svgs. \<forall>j<length svgs.
             i < j \<and> butlast (fst (svgs ! i)) = butlast (fst (svgs ! j)) \<and> names ! i = names ! j \<longrightarrow>
               snd (snd (snd (rename_map r ! i))) \<noteq> snd (snd (snd (rename_map r ! j)))
             \<and> occurrence (destinations svgs names) i < occurrence (destinations svgs names) j
             \<and> (occurrence (destinations svgs names) j = 2 \<longrightarrow>
                  snd (snd (snd (rename_map r ! i))) = names ! i
                \<and> (\<exists>stem. names ! j = stem @ ''.svg''
                      \<and> snd (snd (snd (rename_map r ! j))) = stem @ ''-v2.svg'')))"
proof -
  let ?step = "\<lambda>(svg, name) self. collision_step self svg name"
  from mapping_loop_fold[OF assms(1)] obtain names where n:
    "length names = length svgs"
    "\<forall>i<length svgs. synthesized env fs (svgs ! i) = Inr (names ! i)"
    "r = fold ?step (zip svgs names) new_SVGRenamer"
    by blast
  let ?keys = "destination_keys svgs names"
  let ?ds = "destinations svgs names"
  let ?final = "\<lambda>i. snd (snd (snd (rename_map r ! i)))"
  have dl: "length ?ds = length svgs" using n(1) by (simp add: destinations_def)
  have ns: "\<forall>name\<in>set names. CHR ''/'' \<notin> set name"
  proof
    fix name assume "name \<in> set names"
    then obtain i where "i < length names" "names ! i = name" by (auto simp: in_set_conv_nth)
    with n(1,2) have "synthesized env fs (svgs ! i) = Inr name" by auto
    then show "CHR ''/'' \<notin> set name" by (rule synthesized_no_slash)
  qed
  have occ: "occurrence ?keys i = occurrence ?ds i" if "i < length svgs" for i
    using n(1) that assms(2) ns by (rule occurrence_keys)
  from fold_steps[of svgs names new_SVGRenamer] n(1) obtain tail where t:
    "rename_map (fold ?step (zip svgs names) new_SVGRenamer) = rename_map new_SVGRenamer @ tail"
    "length tail = length svgs"
    "\<forall>i<length svgs. tail ! i =
                 (fst (snd (svgs ! i)), snd (snd (svgs ! i)), last (fst (svgs ! i)),
                  (let k = ?keys ! i;
                       n = Suc (collision_counter new_SVGRenamer k + count_list (take i ?keys) k)
                   in if n = 1 then names ! i else versioned (names ! i) n))"
    by auto
  have rm: "rename_map r = tail" using t(1) n(3) by (simp add: new_SVGRenamer_def)
  have len: "length (rename_map r) = length svgs" using rm t(2) by simp
  have bykeys: "\<forall>i<length svgs. rename_map r ! i =
             (fst (snd (svgs ! i)), snd (snd (svgs ! i)), last (fst (svgs ! i)),
              resolved_name ?keys names i)"
    using t(3) rm
    by (simp add: new_SVGRenamer_def resolved_name_versioned occurrence_def Let_def)
  have same: "resolved_name ?keys names i = resolved_name ?ds names i" if "i < length svgs" for i
    using occ[OF that] by (simp add: resolved_name_def)
  have nth: "rename_map r ! i =
             (fst (snd (svgs ! i)), snd (snd (svgs ! i)), last (fst (svgs ! i)),
              resolved_name ?ds names i)" if "i < length svgs" for i
    using bykeys same that by simp
  have fin: "?final i = resolved_name ?ds names i" if "i < length svgs" for i
    using nth[OF that] by simp
  have ext: "\<exists>stem. names ! i = stem @ ''.svg''" if "i < length svgs" for i
    using n(2) synthesized_svg that by blast
  have rec: "\<exists>stem. names ! i = stem @ ''.svg'' \<and>
             rename_map r ! i =
               (fst (snd (svgs ! i)), snd (snd (svgs ! i)), last (fst (svgs ! i)),
                if occurrence ?ds i = 1 then stem @ ''.svg''
                else stem @ ''-v'' @ str_nat (occurrence ?ds i) @ ''.svg'')"
    if "i < length svgs" for i
  proof -
    from ext[OF that] obtain stem where s: "names ! i = stem @ ''.svg''" by blast
    have "resolved_name ?ds names i =
            (if occurrence ?ds i = 1 then stem @ ''.svg''
             else stem @ ''-v'' @ str_nat (occurrence ?ds i) @ ''.svg'')"
      using s by (simp add: resolved_name_def)
    with nth[OF that] s show ?thesis by (intro exI[of _ stem]) simp
  qed
  have pair: "?final i \<noteq> ?final j
             \<and> occurrence ?ds i < occurrence ?ds j
             \<and> (occurrence ?ds j = 2 \<longrightarrow>
                  ?final i = names ! i
                \<and> (\<exists>stem. names ! j = stem @ ''.svg'' \<and> ?final j = stem @ ''-v2.svg''))"
    if h: "i < length svgs" "j < length svgs" "i < j"
      "butlast (fst (svgs ! i)) = butlast (fst (svgs ! j))" "names ! i = names ! j" for i j
  proof -
    have k: "?ds ! i = ?ds ! j" using h n(1) by (simp add: destinations_def)
    have lt: "occurrence ?ds i < occurrence ?ds j"
      using h k dl by (intro occurrence_less) simp_all
    have ne: "resolved_name ?ds names i \<noteq> resolved_name ?ds names j"
      using lt h(5) by (rule resolved_name_distinct)
    have two: "?final i = names ! i
                \<and> (\<exists>stem. names ! j = stem @ ''.svg'' \<and> ?final j = stem @ ''-v2.svg'')"
      if o: "occurrence ?ds j = 2"
    proof -
      have "occurrence ?ds i = 1" using lt o by (simp add: occurrence_def)
      then have a: "?final i = names ! i" using fin[OF h(1)] by (simp add: resolved_name_def)
      from ext[OF h(2)] obtain stem where s: "names ! j = stem @ ''.svg''" by blast
      then have "resolved_name ?ds names j = stem @ ''-v2.svg''"
        using o by (simp add: resolved_name_def str_nat_2)
      with s a fin[OF h(2)] show ?thesis by simp
    qed
    from ne lt two fin[OF h(1)] fin[OF h(2)] show ?thesis by simp
  qed
  from n(1,2) len rec pair show ?thesis
    by (intro exI[of _ names] conjI allI impI) blast+
qed

text \<open>
  The theorem at the example catalog, where the three files of the directory \<open>hmh/waves\<close> all
  get the synthesized name \<open>wave.svg\<close>.
\<close>

theorem collision_resolution_witness:
  "\<exists>r. mapping_loop example_env example_fs example_svgs new_SVGRenamer = Inr r
      \<and> length (rename_map r) = 3
      \<and> snd (snd (snd (rename_map r ! 0))) = ''wave.svg''
      \<and> snd (snd (snd (rename_map r ! 1))) = ''wave-v2.svg''
      \<and> snd (snd (snd (rename_map r ! 0))) \<noteq> snd (snd (snd (rename_map r ! 1)))"
proof -
  have s0: "synthesized example_env example_fs (example_svgs ! 0) = Inr ''wave.svg''"
    and s1: "synthesized example_env example_fs (example_svgs ! 1) = Inr ''wave.svg''"
    and s2: "synthesized example_env example_fs (example_svgs ! 2) = Inr ''wave.svg''"
    by code_simp+
  have l: "length example_svgs = 3" by (simp add: example_svgs_def)
  have e: "example_svgs = [example_svgs ! 0, example_svgs ! 1, example_svgs ! 2]"
    by (simp add: example_svgs_def)
  have "\<exists>r. mapping_loop example_env example_fs example_svgs new_SVGRenamer = Inr r"
    using s1 by (subst e) (simp add: s0 s2 bind_err_Inr)
  then obtain r where r: "mapping_loop example_env example_fs example_svgs new_SVGRenamer = Inr r"
    by blast
  have sl: "\<forall>svg\<in>set example_svgs. \<forall>n\<in>set (fst svg). CHR ''/'' \<notin> set n"
    by code_simp
  let ?final = "\<lambda>i. snd (snd (snd (rename_map r ! i)))"
  from collision_resolution[OF r sl] obtain names where n:
    "length names = length example_svgs"
    "\<forall>i<length example_svgs. synthesized example_env example_fs (example_svgs ! i) = Inr (names ! i)"
    "length (rename_map r) = length example_svgs"
    "\<forall>i<length example_svgs. \<forall>j<length example_svgs.
             i < j \<and> butlast (fst (example_svgs ! i)) = butlast (fst (example_svgs ! j))
               \<and> names ! i = names ! j \<longrightarrow>
               ?final i \<noteq> ?final j
             \<and> occurrence (destinations example_svgs names) i
                 < occurrence (destinations example_svgs names) j
             \<and> (occurrence (destinations example_svgs names) j = 2 \<longrightarrow>
                  ?final i = names ! i
                \<and> (\<exists>stem. names ! j = stem @ ''.svg'' \<and> ?final j = stem @ ''-v2.svg''))"
    by (elim exE conjE)
  from n(2) l s0 s1 have n0: "names ! 0 = ''wave.svg''" and n1: "names ! 1 = ''wave.svg''"
    by auto
  let ?ds = "destinations example_svgs names"
  have b: "butlast (fst (example_svgs ! 0)) = butlast (fst (example_svgs ! 1))"
    by (simp add: example_svgs_def)
  have dl: "length ?ds = 3" using n(1) l by (simp add: destinations_def)
  have k: "?ds ! 0 = ?ds ! 1"
    using n(1) l b n0 n1 by (simp add: destinations_def)
  have "take 1 ?ds = [?ds ! 0]"
    using dl by (cases ?ds) auto
  then have c: "occurrence ?ds 1 = 2" using k by (simp add: occurrence_def)
  have i0: "(0::nat) < length example_svgs" and i1: "(1::nat) < length example_svgs"
    using l by simp_all
  from n(4) i0 i1 b n0 n1 have p:
    "?final 0 \<noteq> ?final 1
     \<and> occurrence ?ds 0 < occurrence ?ds 1
     \<and> (occurrence ?ds 1 = 2 \<longrightarrow>
          ?final 0 = names ! 0
        \<and> (\<exists>stem. names ! 1 = stem @ ''.svg'' \<and> ?final 1 = stem @ ''-v2.svg''))"
    by (metis zero_less_one)
  with c n0 n1 have f: "?final 0 = ''wave.svg''" "?final 1 = ''wave-v2.svg''" "?final 0 \<noteq> ?final 1"
    by auto
  with n(3) l r show ?thesis by (intro exI[of _ r]) simp
qed

text \<open>
  The pair sentence of claim C3 without the condition on the occurrence number: the second
  and third file of the example catalog are distinct, lie in one directory and synthesize the
  same name, and the earlier of the two gets \<open>wave-v2.svg\<close>, the later one \<open>wave-v3.svg\<close>.
\<close>

theorem collision_resolution_counterexample:
  "map_sum id rename_map (mapping_loop example_env example_fs example_svgs new_SVGRenamer) =
     Inr [(''hmh'', ''waves'', ''wave_01.svg'', ''wave.svg''),
          (''hmh'', ''waves'', ''wave_02.svg'', ''wave-v2.svg''),
          (''hmh'', ''waves'', ''wave_03.svg'', ''wave-v3.svg'')]
   \<and> synthesized example_env example_fs (example_svgs ! 1) = Inr ''wave.svg''
   \<and> synthesized example_env example_fs (example_svgs ! 2) = Inr ''wave.svg''
   \<and> butlast (fst (example_svgs ! 1)) = butlast (fst (example_svgs ! 2))
   \<and> example_svgs ! 1 \<noteq> example_svgs ! 2"
  by code_simp

subsection \<open>Determinism of the preview\<close>



subsection \<open>The fallback base word\<close>

text \<open>
  Claim C9 at the label \<open>compass\<close>, the singular of the table's \<open>compasses\<close>, which the
  table does not have. The claim asks for the label with one trailing letter stripped,
  \<^const>\<open>strip_plural_letter\<close>, which is \<open>compas\<close>. The source calls \<open>rstrip('s')\<close>, which
  strips the whole run of trailing \<open>s\<close>: the base word is \<open>compa\<close> and the name is
  \<open>compa.svg\<close>. The comment of the source says "category base (singular form)", and the
  table maps \<open>compasses\<close> to \<open>compass\<close>.
\<close>

theorem fallback_base_word_compass:
  "category_singular ''compass'' = None
   \<and> strip_plural_letter ''compass'' = ''compas''
   \<and> base_word ''compass'' = ''compa''
   \<and> generate_descriptive_name
        \<lparr>filepath = ''hmh/compass/compass_01.svg'', category = ''compass'', root = None,
         comment = None\<rparr> = Inr ''compa.svg''
   \<and> category_singular ''compasses'' = Some ''compass''"
  by code_simp

subsection \<open>Files that do not parse\<close>

text \<open>
  Claim C4 at two files that fail structural parsing. The first holds the byte \<open>0xFF\<close>
  before \<open><svg\<close>: the parser would raise \<open>ParseError\<close> on it, but \<open>_parse\<close> reads and decodes
  the file before the \<open>try\<close>, so the constructor raises \<open>UnicodeDecodeError\<close>. The second
  declares an encoding that Python does not know: \<open>ET.parse\<close> raises \<open>LookupError\<close>, and the
  \<open>except\<close> clause names \<open>ParseError\<close> only. In both catalogs the exception leaves
  \<open>generate_rename_mapping\<close> and the run ends without a mapping, also for the wave file that
  parses.
\<close>

theorem unparsable_file_raises:
  "read_bytes latin1_fs [''hmh'', ''hearts'', ''heart_01.svg''] = Inr (CHR 0xFF # ''<svg'')
   \<and> xml_parse example_env (CHR 0xFF # ''<svg'') = RaisesParseError
   \<and> new_SVGAnalyzer example_env latin1_fs [''hmh'', ''hearts'', ''heart_01.svg''] ''hearts''
       = Inl UnicodeDecodeError
   \<and> main example_env [''rename_shapes_descriptive.py''] latin1_fs
       = (latin1_fs, Inl UnicodeDecodeError)
   \<and> read_bytes klingon_fs [''hmh'', ''hearts'', ''heart_01.svg''] = Inr klingon_doc
   \<and> xml_parse example_env klingon_doc = RaisesOther LookupError
   \<and> new_SVGAnalyzer example_env klingon_fs [''hmh'', ''hearts'', ''heart_01.svg''] ''hearts''
       = Inl LookupError
   \<and> main example_env [''rename_shapes_descriptive.py''] klingon_fs
       = (klingon_fs, Inl LookupError)"
  by code_simp

subsection \<open>Applying the mapping\<close>

text \<open>
  Claim C8 at a catalog whose first record has a new name of 256 bytes. Its source exists;
  \<open>new_path.exists()\<close> raises \<open>OSError\<close> (the name is too long), and the call stands before
  the \<open>try\<close>: the run with \<open>--execute\<close> ends there, nothing is renamed, and the second
  record, whose source exists and whose destination does not, is never reached. On a
  terminal without the check mark the \<open>print\<close> after \<open>os.rename\<close> raises inside the \<open>try\<close>:
  every file of the example catalog is renamed and reported with the error line, and the
  summary counts 3 renamed and 3 skipped for 3 records.
\<close>

theorem apply_aborts_on_long_name:
  "map_sum id rename_map (generate_rename_mapping example_env long_fs new_SVGRenamer)
     = Inr [(''hmh'', long_category, ''shape_01.svg'', long_category @ ''.svg''),
            (''hmh'', ''waves'', ''wave_01.svg'', ''wave.svg'')]
   \<and> path_exists example_env long_fs [''hmh'', long_category, ''shape_01.svg''] = Inr True
   \<and> path_exists example_env long_fs [''hmh'', long_category, long_category @ ''.svg'']
       = Inl OSError
   \<and> path_exists example_env long_fs [''hmh'', ''waves'', ''wave_01.svg''] = Inr True
   \<and> path_exists example_env long_fs [''hmh'', ''waves'', ''wave.svg''] = Inr False
   \<and> main example_env [''rename_shapes_descriptive.py'', ''--execute''] long_fs
       = (long_fs, Inl OSError)
   \<and> snd (main (example_env\<lparr>stdout_unicode := False\<rparr>)
             [''rename_shapes_descriptive.py'', ''--execute''] example_fs)
       = Inr (Summary 3 3 [ErrorLine, ErrorLine, ErrorLine])
   \<and> lookup (fst (main (example_env\<lparr>stdout_unicode := False\<rparr>)
                    [''rename_shapes_descriptive.py'', ''--execute''] example_fs))
        [''hmh'', ''waves'', ''wave_01.svg''] = None
   \<and> lookup (fst (main (example_env\<lparr>stdout_unicode := False\<rparr>)
                    [''rename_shapes_descriptive.py'', ''--execute''] example_fs))
        [''hmh'', ''waves'', ''wave.svg''] = Some (File wave_doc)"
  by code_simp


end
